theory Spec2Isabelle
  imports Main
begin

section \<open>Syntax trees of the output program\<close>

text \<open>
  The builders of \<open>babel-types\<close> used by the two source files, one constructor per
  builder, \<open>t_identifier\<close> for \<open>t.identifier\<close> and so on. A node is an immutable
  tree here: the source never mutates a node after building it, so two nodes are the same
  node when they are the same tree. \<open>t.objectProperty\<close> and \<open>t.variableDeclarator\<close>
  only occur inside their parent and are pairs.
\<close>

datatype BabelNodeExpression =
    t_identifier string
  | t_stringLiteral string
  | t_booleanLiteral bool
  | t_nullLiteral
  | t_unaryExpression string BabelNodeExpression
  | t_binaryExpression string BabelNodeExpression BabelNodeExpression
  | t_logicalExpression string BabelNodeExpression BabelNodeExpression
  | t_assignmentExpression string BabelNodeExpression BabelNodeExpression
  | t_memberExpression BabelNodeExpression BabelNodeExpression
  | t_conditionalExpression BabelNodeExpression BabelNodeExpression BabelNodeExpression
  | t_callExpression BabelNodeExpression "BabelNodeExpression list"
  | t_newExpression BabelNodeExpression "BabelNodeExpression list"
  | t_objectExpression "(BabelNodeExpression \<times> BabelNodeExpression) list"

abbreviation (input) t_objectProperty ::
  "BabelNodeExpression \<Rightarrow> BabelNodeExpression \<Rightarrow> BabelNodeExpression \<times> BabelNodeExpression" where
  "t_objectProperty k v \<equiv> (k, v)"

abbreviation (input) t_variableDeclarator ::
  "BabelNodeExpression \<Rightarrow> BabelNodeExpression \<Rightarrow> BabelNodeExpression \<times> BabelNodeExpression" where
  "t_variableDeclarator i e \<equiv> (i, e)"

datatype BabelNodeStatement =
    t_variableDeclaration string "(BabelNodeExpression \<times> BabelNodeExpression) list"
  | t_expressionStatement BabelNodeExpression
  | t_throwStatement BabelNodeExpression
  | t_blockStatement "BabelNodeStatement list"
  | t_ifStatement BabelNodeExpression BabelNodeStatement

section \<open>Faults\<close>

text \<open>
  \<open>InvariantViolation\<close> is a failed \<open>invariant(...)\<close> of the source (the
  internal-consistency fault). \<open>TypeError\<close> is what JavaScript raises when a field of
  something that is not an object of the expected class is read: in the model, a
  reference that does not point to a live object of that class. \<open>MissingNode\<close> marks a
  synthesis closure that was handed fewer nodes than it takes apart: the source then
  passes JavaScript's \<open>undefined\<close> to a \<open>babel-types\<close> builder, whose reaction lies
  outside the two source files.
\<close>

datatype fault = InvariantViolation | TypeError | MissingNode

section \<open>Values, domains and the heap\<close>

type_synonym addr = nat

text \<open>
  A \<open>Value\<close> of the source is a reference to an object. Abstract values are mutable
  (\<open>clone\<close>, \<open>derive\<close> and \<open>promoteEmptyToUndefined\<close> assign their fields after
  construction) and live on the heap. Concrete values are never mutated by the two source
  files: they carry the reference to their realm (\<open>$Realm\<close>, set by the constructor of
  the base class) and, for a \<open>StringValue\<close>, the string; any other concrete value is
  told apart by a tag.
\<close>

datatype Value =
    AbstractV addr
  | StringV addr string
  | ConcreteV addr nat

text \<open>The classes the two source files compare type facts with (\<open>===\<close> on classes).\<close>

datatype ValueClass =
    Value | ConcreteValue | AbstractValue | AbstractObjectValue | ObjectValue
  | FunctionValue | UndefinedValue | NullValue | StringValue | BooleanValue
  | NumberValue | SymbolValue | EmptyValue

text \<open>
  Modelled from the spec: \<open>TypesDomain\<close> (class of \<open>domains/index.js\<close>, not among the
  source files). Its only use is \<open>getType()\<close>, which returns a concrete class or, when
  nothing is known, the base class \<open>Value\<close>; \<open>new TypesDomain(c)\<close> is the constructor.
\<close>

datatype TypesDomain = TypesDomain (getType: ValueClass)

text \<open>
  Modelled from the spec: \<open>ValuesDomain\<close> (class of \<open>domains/index.js\<close>, not among
  the source files), an immutable snapshot that is only ever asked three things: the two
  membership queries and the promotion of the deletion sentinel, which answers with
  another domain. Nothing else about a domain is assumed, so a domain is the collection
  of its answers.
\<close>

codatatype ValuesDomain = ValuesDomain
  (includesValueOfType: "ValueClass \<Rightarrow> bool")
  (includesValueNotOfType: "ValueClass \<Rightarrow> bool")
  (promoteEmptyToUndefined_domain: ValuesDomain)

text \<open>
  The synthesis recipe of an abstract value: a closure over the nodes of its dependencies,
  or a fixed node (\<open>buildNode instanceof Function\<close> tells them apart).
\<close>

datatype buildNodeT =
    Closure "BabelNodeExpression list \<Rightarrow> fault + BabelNodeExpression"
  | FixedNode BabelNodeExpression

fun instanceof_Function :: "buildNodeT \<Rightarrow> bool" where
  "instanceof_Function (Closure f) = True"
| "instanceof_Function (FixedNode n) = False"

text \<open>
  The fields of an \<open>AbstractValue\<close> object. \<open>Realm'\<close> is \<open>$Realm\<close> and
  \<open>intrinsicName\<close> the field of the base class \<open>Value\<close>; \<open>args\<close> is a reference to
  an array, as in the source; \<open>isAbstractObjectValue\<close> is the class of the object, what
  \<open>this instanceof AbstractObjectValue\<close> reads.
\<close>

record AbstractValue =
  Realm' :: addr
  intrinsicName :: "string option"
  types :: TypesDomain
  values' :: ValuesDomain
  buildNode' :: buildNodeT
  args :: addr
  kind :: "string option"
  isAbstractObjectValue :: bool

text \<open>
  What the source reads of a realm: the flag \<open>isPartial\<close>, the two constants
  \<open>intrinsics.undefined\<close> and \<open>intrinsics.empty\<close>, and \<open>preludeGenerator\<close>, which
  may be absent.
\<close>

record Intrinsics =
  undefined' :: Value
  empty' :: Value

record Realm =
  isPartial :: bool
  intrinsics :: Intrinsics
  realm_preludeGenerator :: "addr option"

text \<open>
  The allocator object: its three containers are objects of their own, held by
  reference, and the counter is a field.
\<close>

record PreludeGenerator =
  prelude :: addr
  derivedIds :: addr
  memoisedRefs :: addr
  uidCounter :: nat

text \<open>
  The heap is the list of all objects allocated so far; the address of an object is its
  position, so \<open>new\<close> appends and a new address is the length of the heap. A
  \<open>Set\<close> of identifier nodes is a set of trees and a \<open>Map\<close> from strings to nodes a
  partial function: the source only adds to them, looks a key up and copies them.
\<close>

datatype heap_obj =
    ArrayObj "Value list"
  | StatementArrayObj "BabelNodeStatement list"
  | SetObj "BabelNodeExpression set"
  | MapObj "string \<rightharpoonup> BabelNodeExpression"
  | AbstractValueObj AbstractValue
  | RealmObj Realm
  | PreludeGeneratorObj PreludeGenerator

type_synonym heap = "heap_obj list"

definition alloc :: "heap \<Rightarrow> heap_obj \<Rightarrow> addr \<times> heap" where
  "alloc h obj = (length h, h @ [obj])"

definition lookup :: "heap \<Rightarrow> addr \<Rightarrow> heap_obj option" where
  "lookup h a = (if a < length h then Some (h ! a) else None)"

definition getAbstractValue :: "heap \<Rightarrow> addr \<Rightarrow> AbstractValue option" where
  "getAbstractValue h a = (case lookup h a of Some (AbstractValueObj v) \<Rightarrow> Some v | _ \<Rightarrow> None)"

definition getRealm :: "heap \<Rightarrow> addr \<Rightarrow> Realm option" where
  "getRealm h a = (case lookup h a of Some (RealmObj r) \<Rightarrow> Some r | _ \<Rightarrow> None)"

definition getArray :: "heap \<Rightarrow> addr \<Rightarrow> Value list option" where
  "getArray h a = (case lookup h a of Some (ArrayObj xs) \<Rightarrow> Some xs | _ \<Rightarrow> None)"

definition getPreludeGenerator :: "heap \<Rightarrow> addr \<Rightarrow> PreludeGenerator option" where
  "getPreludeGenerator h a =
     (case lookup h a of Some (PreludeGeneratorObj p) \<Rightarrow> Some p | _ \<Rightarrow> None)"

definition getStatementArray :: "heap \<Rightarrow> addr \<Rightarrow> BabelNodeStatement list option" where
  "getStatementArray h a =
     (case lookup h a of Some (StatementArrayObj xs) \<Rightarrow> Some xs | _ \<Rightarrow> None)"

definition getSet :: "heap \<Rightarrow> addr \<Rightarrow> BabelNodeExpression set option" where
  "getSet h a = (case lookup h a of Some (SetObj s) \<Rightarrow> Some s | _ \<Rightarrow> None)"

definition getMap :: "heap \<Rightarrow> addr \<Rightarrow> (string \<rightharpoonup> BabelNodeExpression) option" where
  "getMap h a = (case lookup h a of Some (MapObj m) \<Rightarrow> Some m | _ \<Rightarrow> None)"

section \<open>AbstractValue\<close>

text \<open>
  The constructor. \<open>isObj\<close> is the class being instantiated
  (\<open>this instanceof AbstractObjectValue\<close>): \<open>False\<close> for \<open>new AbstractValue(...)\<close>.
  The three invariants are checked in the order of the source; \<open>super(realm,
  intrinsicName)\<close> stores its two arguments. A failed invariant leaves no object behind.
\<close>

definition new_AbstractValue ::
  "bool \<Rightarrow> heap \<Rightarrow> addr \<Rightarrow> TypesDomain \<Rightarrow> ValuesDomain \<Rightarrow> addr \<Rightarrow> buildNodeT \<Rightarrow>
   string option \<Rightarrow> string option \<Rightarrow> fault + (addr \<times> heap)" where
  "new_AbstractValue isObj h realm tys vals as bn knd iname =
     (case getRealm h realm of
        None \<Rightarrow> Inl TypeError
      | Some r \<Rightarrow>
          if \<not> isPartial r then Inl InvariantViolation
          else if \<not> (getType tys \<noteq> ObjectValue \<or> isObj) then Inl InvariantViolation
          else if \<not> (getType tys \<noteq> NullValue \<and> getType tys \<noteq> UndefinedValue)
            then Inl InvariantViolation
          else Inr (alloc h (AbstractValueObj
                 \<lparr> Realm' = realm, intrinsicName = iname, types = tys, values' = vals,
                   buildNode' = bn, args = as, kind = knd, isAbstractObjectValue = isObj \<rparr>)))"

text \<open>
  A field assignment \<open>o.f = e\<close> on the abstract value at address \<open>a\<close>.
\<close>

definition modifyAbstractValue ::
  "heap \<Rightarrow> addr \<Rightarrow> (AbstractValue \<Rightarrow> AbstractValue) \<Rightarrow> fault + heap" where
  "modifyAbstractValue h a f =
     (case getAbstractValue h a of
        None \<Rightarrow> Inl TypeError
      | Some v \<Rightarrow> Inr (h[a := AbstractValueObj (f v)]))"

text \<open>
  Truthiness of an optional string, as \<open>if (this.kind)\<close> tests it: absent and the empty
  string are falsy. An array reference is an object and always truthy, so
  \<open>if (this.args) result.args = this.args\<close> always assigns.
\<close>

fun truthy_string :: "string option \<Rightarrow> bool" where
  "truthy_string None = False"
| "truthy_string (Some s) = (s \<noteq> [])"

definition clone :: "heap \<Rightarrow> addr \<Rightarrow> fault + (addr \<times> heap)" where
  "clone h this =
     (case getAbstractValue h this of
        None \<Rightarrow> Inl TypeError
      | Some v \<Rightarrow>
          (case new_AbstractValue False h (Realm' v) (types v) (values' v) (args v)
                  (buildNode' v) None None of
             Inl e \<Rightarrow> Inl e
           | Inr (result, h1) \<Rightarrow>
               (case modifyAbstractValue h1 result (\<lambda>r. r\<lparr>args := args v\<rparr>) of
                  Inl e \<Rightarrow> Inl e
                | Inr h2 \<Rightarrow>
                    if truthy_string (kind v)
                    then (case modifyAbstractValue h2 result (\<lambda>r. r\<lparr>kind := kind v\<rparr>) of
                            Inl e \<Rightarrow> Inl e
                          | Inr h3 \<Rightarrow> Inr (result, h3))
                    else Inr (result, h2))))"

text \<open>
  The methods that only read fields of \<open>this\<close> take the object; those that return or
  store \<open>this\<close> itself (\<open>clone\<close> above, \<open>promoteEmptyToUndefined\<close> below) take its
  address.
\<close>

definition getType_AbstractValue :: "AbstractValue \<Rightarrow> ValueClass" where
  "getType_AbstractValue this = getType (types this)"

definition buildNode :: "AbstractValue \<Rightarrow> BabelNodeExpression list \<Rightarrow> fault + BabelNodeExpression" where
  "buildNode this nodes =
     (case buildNode' this of Closure f \<Rightarrow> f nodes | FixedNode n \<Rightarrow> Inr n)"

definition hasIdentifier :: "AbstractValue \<Rightarrow> bool" where
  "hasIdentifier this =
     (case buildNode' this of FixedNode (t_identifier n) \<Rightarrow> True | _ \<Rightarrow> False)"

definition getIdentifier :: "AbstractValue \<Rightarrow> fault + BabelNodeExpression" where
  "getIdentifier this =
     (if \<not> hasIdentifier this then Inl InvariantViolation
      else (case buildNode' this of FixedNode n \<Rightarrow> Inr n | Closure f \<Rightarrow> Inl InvariantViolation))"

definition mightBeNumber :: "AbstractValue \<Rightarrow> bool" where
  "mightBeNumber this =
     (let valueType = getType_AbstractValue this in
      if valueType = NumberValue then True
      else includesValueOfType (values' this) NumberValue)"

definition mightNotBeNumber :: "AbstractValue \<Rightarrow> bool" where
  "mightNotBeNumber this =
     (let valueType = getType_AbstractValue this in
      if valueType = NumberValue then False
      else includesValueNotOfType (values' this) NumberValue)"

definition mightNotBeObject :: "AbstractValue \<Rightarrow> bool" where
  "mightNotBeObject this =
     (let valueType = getType_AbstractValue this in
      if valueType = ObjectValue then False
      else includesValueNotOfType (values' this) ObjectValue)"

definition mightBeObject :: "AbstractValue \<Rightarrow> bool" where
  "mightBeObject this =
     (let valueType = getType_AbstractValue this in
      if valueType = ObjectValue then True
      else includesValueOfType (values' this) ObjectValue)"

definition mightBeUndefined :: "AbstractValue \<Rightarrow> bool" where
  "mightBeUndefined this =
     (let valueType = getType_AbstractValue this in
      if valueType = UndefinedValue then True
      else includesValueOfType (values' this) UndefinedValue)"

definition mightHaveBeenDeleted :: "AbstractValue \<Rightarrow> bool" where
  "mightHaveBeenDeleted this = includesValueOfType (values' this) EmptyValue"

text \<open>
  Modelled from the spec: \<open>realm.createAbstract\<close> (method of \<open>realm.js\<close>, not among the
  source files), the factory that builds a symbolic value or its object-specialised
  variant from domain facts, dependencies and a synthesis recipe. It builds the
  object-specialised variant exactly when the type facts denote the object category, as the
  invariant of the data model asks; the constructor of that variant is taken to run the
  constructor above and nothing else that can fail.
\<close>

definition createAbstract ::
  "heap \<Rightarrow> addr \<Rightarrow> TypesDomain \<Rightarrow> ValuesDomain \<Rightarrow> addr \<Rightarrow> buildNodeT \<Rightarrow> string option \<Rightarrow>
   fault + (addr \<times> heap)" where
  "createAbstract h realm tys vals as bn knd =
     new_AbstractValue (getType tys = ObjectValue) h realm tys vals as bn knd None"

text \<open>
  The two closures of \<open>promoteEmptyToUndefined\<close>. \<open>([x, y]) => ...\<close> takes the first
  two nodes and ignores any further one; \<open>args[0]\<close>, \<open>args[1]\<close>, \<open>args[2]\<close> likewise
  the first three.
\<close>

fun strictEquals :: "BabelNodeExpression list \<Rightarrow> fault + BabelNodeExpression" where
  "strictEquals (x # y # rest) = Inr (t_binaryExpression ''==='' x y)"
| "strictEquals nodes = Inl MissingNode"

fun conditional :: "BabelNodeExpression list \<Rightarrow> fault + BabelNodeExpression" where
  "conditional (a0 # a1 # a2 # rest) = Inr (t_conditionalExpression a0 a1 a2)"
| "conditional nodes = Inl MissingNode"

text \<open>
  \<open>topVal\<close> is the static constant \<open>ValuesDomain.topVal\<close> of the domain algebra, taken
  as a parameter. The steps are those of the source, in its order: the array literal of
  a call is allocated before the call.
\<close>

definition promoteEmptyToUndefined ::
  "ValuesDomain \<Rightarrow> heap \<Rightarrow> addr \<Rightarrow> fault + (Value \<times> heap)" where
  "promoteEmptyToUndefined topVal h this =
     (case getAbstractValue h this of
        None \<Rightarrow> Inl TypeError
      | Some v \<Rightarrow>
          if \<not> includesValueOfType (values' v) EmptyValue then Inr (AbstractV this, h)
          else
            (case clone h this of
               Inl e \<Rightarrow> Inl e
             | Inr (result, h1) \<Rightarrow>
            (case modifyAbstractValue h1 result
                    (\<lambda>r. r\<lparr>values' := promoteEmptyToUndefined_domain (values' r)\<rparr>) of
               Inl e \<Rightarrow> Inl e
             | Inr h2 \<Rightarrow>
            (case getRealm h2 (Realm' v) of
               None \<Rightarrow> Inl TypeError
             | Some r \<Rightarrow>
            (case alloc h2 (ArrayObj [AbstractV this, empty' (intrinsics r)]) of
               (condArgs, h3) \<Rightarrow>
            (case createAbstract h3 (Realm' v) (TypesDomain BooleanValue) topVal condArgs
                    (Closure strictEquals) None of
               Inl e \<Rightarrow> Inl e
             | Inr (cond, h4) \<Rightarrow>
            (case getRealm h4 (Realm' v) of
               None \<Rightarrow> Inl TypeError
             | Some r' \<Rightarrow>
            (case alloc h4 (ArrayObj [AbstractV cond, undefined' (intrinsics r'), AbstractV this]) of
               (resultArgs, h5) \<Rightarrow>
            (case modifyAbstractValue h5 result (\<lambda>r. r\<lparr>args := resultArgs\<rparr>) of
               Inl e \<Rightarrow> Inl e
             | Inr h6 \<Rightarrow>
            (case modifyAbstractValue h6 result (\<lambda>r. r\<lparr>buildNode' := Closure conditional\<rparr>) of
               Inl e \<Rightarrow> Inl e
             | Inr h7 \<Rightarrow> Inr (AbstractV result, h7)))))))))))"

section \<open>PreludeGenerator\<close>

text \<open>
  Modelled from the spec: \<open>base62.encode\<close> (package \<open>base62\<close>, not among the source
  files), the base-62 encoding of a counter: digits \<open>0-9\<close>, \<open>a-z\<close>, \<open>A-Z\<close>, most
  significant first, and \<open>0\<close> for zero, of a natural number.
\<close>

definition base62_chars :: string where
  "base62_chars = ''0123456789abcdefghijklmnopqrstuvwxyzABCDEFGHIJKLMNOPQRSTUVWXYZ''"

function base62_loop :: "nat \<Rightarrow> string \<Rightarrow> string" where
  "base62_loop n s =
     (if 0 < n then base62_loop (n div 62) ((base62_chars ! (n mod 62)) # s) else s)"
  by pat_completeness auto
termination
  by (relation "measure fst") auto

declare base62_loop.simps [simp del]

definition base62_encode :: "nat \<Rightarrow> string" where
  "base62_encode n = (if n = 0 then ''0'' else base62_loop n [])"

text \<open>
  \<open>str.split(".")\<close>: the pieces between the dots, never an empty array; and
  \<open>reduce\<close> without an initial value, which raises on an empty array.
\<close>

fun split_str :: "char \<Rightarrow> string \<Rightarrow> string list" where
  "split_str sep [] = [[]]"
| "split_str sep (c # cs) =
     (if c = sep then [] # split_str sep cs
      else (case split_str sep cs of [] \<Rightarrow> [[c]] | w # ws \<Rightarrow> (c # w) # ws))"

fun reduce :: "('a \<Rightarrow> 'a \<Rightarrow> 'a) \<Rightarrow> 'a list \<Rightarrow> fault + 'a" where
  "reduce f [] = Inl TypeError"
| "reduce f (x # xs) = Inr (foldl f x xs)"

definition convertStringToMember :: "string \<Rightarrow> fault + BabelNodeExpression" where
  "convertStringToMember str =
     reduce (\<lambda>obj prop. t_memberExpression obj prop)
       (map (\<lambda>name. t_identifier name) (split_str CHR ''.'' str))"

text \<open>
  The constructor. The model allocates the three containers before the object that
  holds them, the source after it; only the numbering of the four addresses differs.
\<close>

definition new_PreludeGenerator :: "heap \<Rightarrow> addr \<times> heap" where
  "new_PreludeGenerator h =
     (case alloc h (StatementArrayObj []) of (p, h1) \<Rightarrow>
     (case alloc h1 (SetObj {}) of (d, h2) \<Rightarrow>
     (case alloc h2 (MapObj Map.empty) of (m, h3) \<Rightarrow>
        alloc h3 (PreludeGeneratorObj
          \<lparr> prelude = p, derivedIds = d, memoisedRefs = m, uidCounter = 0 \<rparr>))))"

definition modifyPreludeGenerator ::
  "heap \<Rightarrow> addr \<Rightarrow> (PreludeGenerator \<Rightarrow> PreludeGenerator) \<Rightarrow> fault + heap" where
  "modifyPreludeGenerator h a f =
     (case getPreludeGenerator h a of
        None \<Rightarrow> Inl TypeError
      | Some p \<Rightarrow> Inr (h[a := PreludeGeneratorObj (f p)]))"

text \<open>
  \<open>copyPG\<close>, statement by statement: each right-hand side is read from \<open>from\<close> and
  copied into a new container (\<open>slice(0)\<close>, \<open>new Set(...)\<close>, \<open>new Map(...)\<close>)
  before the field of \<open>to\<close> is assigned.
\<close>

definition copyPG :: "heap \<Rightarrow> addr \<Rightarrow> addr \<Rightarrow> fault + heap" where
  "copyPG h from to =
     (case getPreludeGenerator h from of None \<Rightarrow> Inl TypeError | Some f1 \<Rightarrow>
     (case getStatementArray h (prelude f1) of None \<Rightarrow> Inl TypeError | Some ps \<Rightarrow>
     (case alloc h (StatementArrayObj ps) of (p, h1) \<Rightarrow>
     (case modifyPreludeGenerator h1 to (\<lambda>t. t\<lparr>prelude := p\<rparr>) of Inl e \<Rightarrow> Inl e | Inr h2 \<Rightarrow>
     (case getPreludeGenerator h2 from of None \<Rightarrow> Inl TypeError | Some f2 \<Rightarrow>
     (case getSet h2 (derivedIds f2) of None \<Rightarrow> Inl TypeError | Some ds \<Rightarrow>
     (case alloc h2 (SetObj ds) of (d, h3) \<Rightarrow>
     (case modifyPreludeGenerator h3 to (\<lambda>t. t\<lparr>derivedIds := d\<rparr>) of Inl e \<Rightarrow> Inl e | Inr h4 \<Rightarrow>
     (case getPreludeGenerator h4 from of None \<Rightarrow> Inl TypeError | Some f3 \<Rightarrow>
     (case getMap h4 (memoisedRefs f3) of None \<Rightarrow> Inl TypeError | Some ms \<Rightarrow>
     (case alloc h4 (MapObj ms) of (m, h5) \<Rightarrow>
     (case modifyPreludeGenerator h5 to (\<lambda>t. t\<lparr>memoisedRefs := m\<rparr>) of Inl e \<Rightarrow> Inl e | Inr h6 \<Rightarrow>
     (case getPreludeGenerator h6 from of None \<Rightarrow> Inl TypeError | Some f4 \<Rightarrow>
        modifyPreludeGenerator h6 to (\<lambda>t. t\<lparr>uidCounter := uidCounter f4\<rparr>))))))))))))))"

text \<open>
  \<open>uidCounter\<close> is a JavaScript number: a double, which here always holds a natural
  number. \<open>uidCounter++\<close> stores the double nearest to the sum with one, a tie going to
  the even significand. Up to \<open>2^53\<close> every natural number is a double and the sum is
  exact. From \<open>2^53\<close> to \<open>2^54\<close> the doubles are the even numbers, so the sum lies
  half way between two of them and the one that is a multiple of four is stored: at
  \<open>2^53\<close> the counter stays where it is. From \<open>2^54\<close> on the nearest double is
  the number itself. The counter starts at zero and the source changes it by
  \<open>++\<close> and by copying only, which lead from doubles to doubles.
\<close>

definition number_increment :: "nat \<Rightarrow> nat" where
  "number_increment x =
     (if x < 2 ^ 53 then x + 1
      else if x < 2 ^ 54 \<and> x mod 4 = 2 then x + 2
      else x)"

definition generateUid :: "heap \<Rightarrow> addr \<Rightarrow> fault + (string \<times> heap)" where
  "generateUid h this =
     (case getPreludeGenerator h this of
        None \<Rightarrow> Inl TypeError
      | Some p \<Rightarrow>
          (let uid = ''_'' @ base62_encode (uidCounter p) in
           Inr (uid, h[this := PreludeGeneratorObj (p\<lparr>uidCounter := number_increment (uidCounter p)\<rparr>)])))"

text \<open>\<open>array.push(x)\<close>, \<open>set.add(x)\<close> and \<open>map.set(k, v)\<close> on a container of the heap.\<close>

definition push_StatementArray :: "heap \<Rightarrow> addr \<Rightarrow> BabelNodeStatement \<Rightarrow> fault + heap" where
  "push_StatementArray h a x =
     (case getStatementArray h a of
        None \<Rightarrow> Inl TypeError
      | Some xs \<Rightarrow> Inr (h[a := StatementArrayObj (xs @ [x])]))"

definition add_Set :: "heap \<Rightarrow> addr \<Rightarrow> BabelNodeExpression \<Rightarrow> fault + heap" where
  "add_Set h a x =
     (case getSet h a of
        None \<Rightarrow> Inl TypeError
      | Some xs \<Rightarrow> Inr (h[a := SetObj (insert x xs)]))"

definition set_Map :: "heap \<Rightarrow> addr \<Rightarrow> string \<Rightarrow> BabelNodeExpression \<Rightarrow> fault + heap" where
  "set_Map h a k x =
     (case getMap h a of
        None \<Rightarrow> Inl TypeError
      | Some m \<Rightarrow> Inr (h[a := MapObj (m(k \<mapsto> x))]))"

text \<open>
  \<open>if (ref) return ref\<close>: a stored reference is a node, an object, hence truthy, so
  the test is whether the key is in the map.
\<close>

definition memoiseReference :: "heap \<Rightarrow> addr \<Rightarrow> string \<Rightarrow> fault + (BabelNodeExpression \<times> heap)" where
  "memoiseReference h this key =
     (case getPreludeGenerator h this of None \<Rightarrow> Inl TypeError | Some p \<Rightarrow>
     (case getMap h (memoisedRefs p) of None \<Rightarrow> Inl TypeError | Some m \<Rightarrow>
     (case m key of
        Some ref \<Rightarrow> Inr (ref, h)
      | None \<Rightarrow>
         (case generateUid h this of Inl e \<Rightarrow> Inl e | Inr (uid, h1) \<Rightarrow>
         (let ref = t_identifier uid in
         (case convertStringToMember key of Inl e \<Rightarrow> Inl e | Inr member \<Rightarrow>
         (case getPreludeGenerator h1 this of None \<Rightarrow> Inl TypeError | Some p1 \<Rightarrow>
         (case push_StatementArray h1 (prelude p1)
                 (t_variableDeclaration ''var'' [t_variableDeclarator ref member]) of
            Inl e \<Rightarrow> Inl e | Inr h2 \<Rightarrow>
         (case getPreludeGenerator h2 this of None \<Rightarrow> Inl TypeError | Some p2 \<Rightarrow>
         (case set_Map h2 (memoisedRefs p2) key ref of
            Inl e \<Rightarrow> Inl e | Inr h3 \<Rightarrow> Inr (ref, h3)))))))))))"

definition save :: "heap \<Rightarrow> addr \<Rightarrow> fault + (addr \<times> heap)" where
  "save h this =
     (case new_PreludeGenerator h of (saved, h1) \<Rightarrow>
     (case copyPG h1 this saved of Inl e \<Rightarrow> Inl e | Inr h2 \<Rightarrow> Inr (saved, h2)))"

definition restore :: "heap \<Rightarrow> addr \<Rightarrow> addr \<Rightarrow> fault + heap" where
  "restore h this saved = copyPG h saved this"

section \<open>Generator\<close>

text \<open>
  A body entry. \<open>entry_args\<close> is the field \<open>args\<close>, a reference to an array, and
  \<open>entry_buildNode\<close> the field \<open>buildNode\<close>. One closure of the source
  (\<open>emitDefineProperty\<close>) calls \<open>memoiseReference\<close> when it is run, so a closure
  takes the heap and returns it; none of the closures of the source uses the second
  parameter of the declared type, which is left out.
\<close>

record BodyEntry =
  declaresDerivedId :: "BabelNodeExpression option"
  entry_args :: addr
  entry_buildNode :: "BabelNodeExpression list \<Rightarrow> heap \<Rightarrow> fault + (BabelNodeStatement \<times> heap)"

text \<open>
  The recorder. \<open>body\<close> is owned by the recorder and never shared by the source, so it
  is a list that the operations return extended; \<open>realm\<close> and \<open>preludeGenerator\<close>
  are references.
\<close>

record Generator =
  realm :: addr
  body :: "BodyEntry list"
  preludeGenerator :: addr

definition new_Generator :: "heap \<Rightarrow> addr \<Rightarrow> fault + Generator" where
  "new_Generator h realm_ref =
     (case getRealm h realm_ref of
        None \<Rightarrow> Inl TypeError
      | Some r \<Rightarrow>
          if \<not> isPartial r then Inl InvariantViolation
          else (case realm_preludeGenerator r of
                  None \<Rightarrow> Inl InvariantViolation
                | Some realmPreludeGenerator \<Rightarrow>
                    Inr \<lparr> realm = realm_ref, body = [],
                          preludeGenerator = realmPreludeGenerator \<rparr>))"

definition empty_Generator :: "Generator \<Rightarrow> bool" where
  "empty_Generator this = (\<not> (length (body this) \<noteq> 0))"

definition body_push :: "Generator \<Rightarrow> BodyEntry \<Rightarrow> Generator" where
  "body_push this entry = this\<lparr>body := body this @ [entry]\<rparr>"

definition emitGlobalDeclaration :: "Generator \<Rightarrow> heap \<Rightarrow> string \<Rightarrow> Value \<Rightarrow> Generator \<times> heap" where
  "emitGlobalDeclaration this h key val =
     (case alloc h (ArrayObj [val]) of (a, h1) \<Rightarrow>
        (body_push this
           \<lparr> declaresDerivedId = None, entry_args = a,
             entry_buildNode = (\<lambda>nodes hp.
               (case nodes of
                  [] \<Rightarrow> Inl MissingNode
                | valueNode # rest \<Rightarrow>
                    Inr (t_variableDeclaration ''var''
                           [t_variableDeclarator (t_identifier key) valueNode], hp))) \<rparr>,
         h1))"

definition emitGlobalAssignment :: "Generator \<Rightarrow> heap \<Rightarrow> string \<Rightarrow> Value \<Rightarrow> Generator \<times> heap" where
  "emitGlobalAssignment this h key val =
     (case alloc h (ArrayObj [val]) of (a, h1) \<Rightarrow>
        (body_push this
           \<lparr> declaresDerivedId = None, entry_args = a,
             entry_buildNode = (\<lambda>nodes hp.
               (case nodes of
                  [] \<Rightarrow> Inl MissingNode
                | valueNode # rest \<Rightarrow>
                    Inr (t_expressionStatement
                           (t_assignmentExpression ''='' (t_identifier key) valueNode), hp))) \<rparr>,
         h1))"

definition emitGlobalDelete :: "Generator \<Rightarrow> heap \<Rightarrow> string \<Rightarrow> Generator \<times> heap" where
  "emitGlobalDelete this h key =
     (case alloc h (ArrayObj []) of (a, h1) \<Rightarrow>
        (body_push this
           \<lparr> declaresDerivedId = None, entry_args = a,
             entry_buildNode = (\<lambda>nodes hp.
               Inr (t_expressionStatement (t_unaryExpression ''delete'' (t_identifier key)),
                    hp)) \<rparr>,
         h1))"

definition emitPropertyAssignment ::
  "Generator \<Rightarrow> heap \<Rightarrow> Value \<Rightarrow> string \<Rightarrow> Value \<Rightarrow> Generator \<times> heap" where
  "emitPropertyAssignment this h object key val =
     (case alloc h (ArrayObj [object, val]) of (a, h1) \<Rightarrow>
        (body_push this
           \<lparr> declaresDerivedId = None, entry_args = a,
             entry_buildNode = (\<lambda>nodes hp.
               (case nodes of
                  objectNode # valueNode # rest \<Rightarrow>
                    Inr (t_expressionStatement
                           (t_assignmentExpression ''=''
                              (t_memberExpression objectNode (t_identifier key)) valueNode), hp)
                | _ \<Rightarrow> Inl MissingNode)) \<rparr>,
         h1))"

text \<open>
  A property descriptor, with the fields of its declared type: three optional flags and
  three optional values. An absent field and \<open>false\<close> are falsy; a \<open>Value\<close> is an
  object and truthy, so \<open>invariant(descValue instanceof Value)\<close> can only fail on an
  absent value, which the test before it excludes.
\<close>

record Descriptor =
  writable :: "bool option"
  enumerable :: "bool option"
  configurable :: "bool option"
  value' :: "Value option"
  get' :: "Value option"
  set' :: "Value option"

fun truthy_bool :: "bool option \<Rightarrow> bool" where
  "truthy_bool None = False"
| "truthy_bool (Some b) = b"

fun truthy_Value :: "Value option \<Rightarrow> bool" where
  "truthy_Value None = False"
| "truthy_Value (Some v) = True"

text \<open>\<open>v.$Realm\<close>, and \<open>x || object.$Realm.intrinsics.undefined\<close>, which reads the realm
  only when \<open>x\<close> is absent.\<close>

definition Realm_of :: "heap \<Rightarrow> Value \<Rightarrow> fault + addr" where
  "Realm_of h v =
     (case v of
        AbstractV a \<Rightarrow> (case getAbstractValue h a of
                          None \<Rightarrow> Inl TypeError
                        | Some av \<Rightarrow> Inr (Realm' av))
      | StringV r s \<Rightarrow> Inr r
      | ConcreteV r n \<Rightarrow> Inr r)"

definition or_undefined :: "heap \<Rightarrow> Value \<Rightarrow> Value option \<Rightarrow> fault + Value" where
  "or_undefined h object x =
     (case x of
        Some v \<Rightarrow> Inr v
      | None \<Rightarrow>
          (case Realm_of h object of
             Inl e \<Rightarrow> Inl e
           | Inr ra \<Rightarrow> (case getRealm h ra of
                          None \<Rightarrow> Inl TypeError
                        | Some r \<Rightarrow> Inr (undefined' (intrinsics r)))))"

text \<open>
  The closure of the second branch of \<open>emitDefineProperty\<close>: \<open>pg\<close> is
  \<open>this.preludeGenerator\<close>, a field that is never reassigned. The accessor pair needs
  the third and fourth node, the data pair the second only.
\<close>

definition definePropertyNode ::
  "addr \<Rightarrow> string \<Rightarrow> Descriptor \<Rightarrow> BabelNodeExpression list \<Rightarrow> heap \<Rightarrow>
   fault + (BabelNodeStatement \<times> heap)" where
  "definePropertyNode pg key desc nodes hp =
     (let descProps0 =
            [t_objectProperty (t_identifier ''enumerable'')
               (t_booleanLiteral (truthy_bool (enumerable desc))),
             t_objectProperty (t_identifier ''configurable'')
               (t_booleanLiteral (truthy_bool (configurable desc)))] in
      (case nodes of
         objectNode # valueNode # rest \<Rightarrow>
           (case (if \<not> truthy_Value (get' desc) \<and> \<not> truthy_Value (set' desc)
                  then Inr (descProps0 @
                         [t_objectProperty (t_identifier ''writable'')
                            (t_booleanLiteral (truthy_bool (writable desc))),
                          t_objectProperty (t_identifier ''value'') valueNode])
                  else (case rest of
                          getNode # setNode # rest' \<Rightarrow>
                            Inr (descProps0 @
                              [t_objectProperty (t_identifier ''get'') getNode,
                               t_objectProperty (t_identifier ''set'') setNode])
                        | _ \<Rightarrow> Inl MissingNode)) of
              Inl e \<Rightarrow> Inl e
            | Inr descProps \<Rightarrow>
                (case memoiseReference hp pg ''Object.defineProperty'' of
                   Inl e \<Rightarrow> Inl e
                 | Inr (ref, hp1) \<Rightarrow>
                     Inr (t_expressionStatement
                            (t_callExpression ref
                               [objectNode, t_stringLiteral key, t_objectExpression descProps]),
                          hp1)))
       | _ \<Rightarrow> Inl MissingNode))"

definition emitDefineProperty ::
  "Generator \<Rightarrow> heap \<Rightarrow> Value \<Rightarrow> string \<Rightarrow> Descriptor \<Rightarrow> fault + (Generator \<times> heap)" where
  "emitDefineProperty this h object key desc =
     (if truthy_bool (enumerable desc) \<and> truthy_bool (configurable desc) \<and>
         truthy_bool (writable desc) \<and> truthy_Value (value' desc)
      then (case value' desc of
              None \<Rightarrow> Inl InvariantViolation
            | Some descValue \<Rightarrow> Inr (emitPropertyAssignment this h object key descValue))
      else
        (case or_undefined h object (value' desc) of Inl e \<Rightarrow> Inl e | Inr v \<Rightarrow>
        (case or_undefined h object (get' desc) of Inl e \<Rightarrow> Inl e | Inr g \<Rightarrow>
        (case or_undefined h object (set' desc) of Inl e \<Rightarrow> Inl e | Inr s \<Rightarrow>
        (case alloc h (ArrayObj [object, v, g, s]) of (a, h1) \<Rightarrow>
           Inr (body_push this
                  \<lparr> declaresDerivedId = None, entry_args = a,
                    entry_buildNode = definePropertyNode (preludeGenerator this) key desc \<rparr>,
                h1))))))"

definition emitPropertyDelete :: "Generator \<Rightarrow> heap \<Rightarrow> Value \<Rightarrow> string \<Rightarrow> Generator \<times> heap" where
  "emitPropertyDelete this h object key =
     (case alloc h (ArrayObj [object]) of (a, h1) \<Rightarrow>
        (body_push this
           \<lparr> declaresDerivedId = None, entry_args = a,
             entry_buildNode = (\<lambda>nodes hp.
               (case nodes of
                  [] \<Rightarrow> Inl MissingNode
                | objectNode # rest \<Rightarrow>
                    Inr (t_expressionStatement
                           (t_unaryExpression ''delete''
                              (t_memberExpression objectNode (t_identifier key))), hp))) \<rparr>,
         h1))"

definition emitConsoleLog :: "Generator \<Rightarrow> heap \<Rightarrow> string \<Rightarrow> Generator \<times> heap" where
  "emitConsoleLog this h str =
     (let strn = StringV (realm this) str in
      (case alloc h (ArrayObj [strn]) of (a, h1) \<Rightarrow>
        (body_push this
           \<lparr> declaresDerivedId = None, entry_args = a,
             entry_buildNode = (\<lambda>nodes hp.
               (case nodes of
                  [] \<Rightarrow> Inl MissingNode
                | strVal # rest \<Rightarrow>
                    Inr (t_expressionStatement
                           (t_callExpression
                              (t_memberExpression (t_identifier ''console'') (t_identifier ''log''))
                              [strVal]), hp))) \<rparr>,
         h1)))"

text \<open>\<open>emitInvariant\<close> is handed the array and pushes the entry; it allocates nothing.\<close>

definition emitInvariant ::
  "Generator \<Rightarrow> addr \<Rightarrow> (BabelNodeExpression list \<Rightarrow> fault + BabelNodeExpression) \<Rightarrow> Generator" where
  "emitInvariant this args_ref violationConditionFn =
     body_push this
       \<lparr> declaresDerivedId = None, entry_args = args_ref,
         entry_buildNode = (\<lambda>nodes hp.
           (case violationConditionFn nodes of
              Inl e \<Rightarrow> Inl e
            | Inr condition \<Rightarrow>
                (let throwblock = t_blockStatement
                       [t_throwStatement
                          (t_newExpression (t_identifier ''Error'')
                             [t_stringLiteral ''Prepack model invariant violation''])] in
                 Inr (t_ifStatement condition throwblock, hp)))) \<rparr>"

text \<open>
  The chain of comparisons of \<open>derive\<close>: the type tag that \<open>typeof\<close> reports in the
  output program, none for a class the chain does not list, and a failed invariant for
  the two singleton classes.
\<close>

definition typeofString_of :: "ValueClass \<Rightarrow> fault + string option" where
  "typeofString_of type =
     (if type = FunctionValue then Inr (Some ''function'')
      else if type = UndefinedValue then Inl InvariantViolation
      else if type = NullValue then Inl InvariantViolation
      else if type = StringValue then Inr (Some ''string'')
      else if type = BooleanValue then Inr (Some ''boolean'')
      else if type = NumberValue then Inr (Some ''number'')
      else if type = SymbolValue then Inr (Some ''symbol'')
      else if type = ObjectValue then Inr (Some ''object'')
      else Inr None)"

text \<open>The closure that \<open>derive\<close> hands to \<open>emitInvariant\<close>; it reads \<open>nodes[0]\<close>.\<close>

definition typeofCondition :: "string \<Rightarrow> BabelNodeExpression list \<Rightarrow> fault + BabelNodeExpression" where
  "typeofCondition typeofString nodes =
     (case nodes of
        [] \<Rightarrow> Inl MissingNode
      | n0 # rest \<Rightarrow>
          (let condition =
                 t_binaryExpression ''!=='' (t_unaryExpression ''typeof'' n0)
                   (t_stringLiteral typeofString) in
           if typeofString = ''object''
           then Inr (t_logicalExpression ''||'' condition
                       (t_binaryExpression ''==='' n0 t_nullLiteral))
           else Inr condition))"

text \<open>The closure of the entry that declares the derived identifier.\<close>

definition deriveNode ::
  "BabelNodeExpression \<Rightarrow> buildNodeT \<Rightarrow> BabelNodeExpression list \<Rightarrow> heap \<Rightarrow>
   fault + (BabelNodeStatement \<times> heap)" where
  "deriveNode ident bn nodes hp =
     (case (case bn of Closure f \<Rightarrow> f nodes | FixedNode n \<Rightarrow> Inr n) of
        Inl e \<Rightarrow> Inl e
      | Inr init \<Rightarrow> Inr (t_variableDeclaration ''var'' [t_variableDeclarator ident init], hp))"

text \<open>
  \<open>derive\<close>. \<open>args_ref\<close> is the array the caller passes; its length is read only when
  the recipe is a fixed node (\<open>||\<close> is short-circuit). The result is the new abstract
  value, the recorder and the heap.
\<close>

definition derive ::
  "Generator \<Rightarrow> heap \<Rightarrow> TypesDomain \<Rightarrow> ValuesDomain \<Rightarrow> addr \<Rightarrow> buildNodeT \<Rightarrow> string option \<Rightarrow>
   fault + (addr \<times> Generator \<times> heap)" where
  "derive this h tys vals args_ref bn knd =
     (case (if instanceof_Function bn then Inr True
            else (case getArray h args_ref of
                    None \<Rightarrow> Inl TypeError
                  | Some xs \<Rightarrow> Inr (length xs = 0))) of
        Inl e \<Rightarrow> Inl e
      | Inr ok \<Rightarrow>
     (if \<not> ok then Inl InvariantViolation else
     (case generateUid h (preludeGenerator this) of Inl e \<Rightarrow> Inl e | Inr (uid, h1) \<Rightarrow>
     (let ident = t_identifier uid in
     (case getPreludeGenerator h1 (preludeGenerator this) of
        None \<Rightarrow> Inl TypeError
      | Some pg \<Rightarrow>
     (case add_Set h1 (derivedIds pg) ident of Inl e \<Rightarrow> Inl e | Inr h2 \<Rightarrow>
     (let this1 = body_push this
            \<lparr> declaresDerivedId = Some ident, entry_args = args_ref,
              entry_buildNode = deriveNode ident bn \<rparr> in
     (case createAbstract h2 (realm this) tys vals args_ref (FixedNode ident) knd of
        Inl e \<Rightarrow> Inl e
      | Inr (res, h3) \<Rightarrow>
     (let type = getType tys in
     (case modifyAbstractValue h3 res (\<lambda>r. r\<lparr>intrinsicName := Some uid\<rparr>) of
        Inl e \<Rightarrow> Inl e
      | Inr h4 \<Rightarrow>
     (case typeofString_of type of
        Inl e \<Rightarrow> Inl e
      | Inr None \<Rightarrow> Inr (res, this1, h4)
      | Inr (Some typeofString) \<Rightarrow>
          (case alloc h4 (ArrayObj [AbstractV res]) of (a, h5) \<Rightarrow>
             Inr (res, emitInvariant this1 a (typeofCondition typeofString), h5)))))))))))))"

section \<open>Concrete instances\<close>

text \<open>
  A domain given by the classes of its finitely many elements, and a small heap: a realm
  in partial mode at address 0, its allocator at address 4 with the three containers at 1,
  2 and 3, an empty array at 5 and, at 6, an abstract value of type Number that already
  has a stable name and whose domain contains the deletion sentinel.
\<close>

primcorec elements_domain :: "ValueClass list \<Rightarrow> ValuesDomain" where
  "elements_domain cs =
     ValuesDomain (\<lambda>c. c \<in> set cs) (\<lambda>c. list_ex (\<lambda>x. x \<noteq> c) cs)
       (elements_domain (map (\<lambda>x. if x = EmptyValue then UndefinedValue else x) cs))"

definition example_realm :: Realm where
  "example_realm =
     \<lparr> isPartial = True,
       intrinsics = \<lparr> undefined' = ConcreteV 0 0, empty' = ConcreteV 0 1 \<rparr>,
       realm_preludeGenerator = Some 4 \<rparr>"

definition example_value :: AbstractValue where
  "example_value =
     \<lparr> Realm' = 0, intrinsicName = Some ''_7'', types = TypesDomain NumberValue,
       values' = elements_domain [NumberValue, EmptyValue],
       buildNode' = FixedNode (t_identifier ''_7''), args = 5, kind = Some ''k'',
       isAbstractObjectValue = False \<rparr>"

definition example_heap :: heap where
  "example_heap =
     [RealmObj example_realm, StatementArrayObj [], SetObj {}, MapObj Map.empty,
      PreludeGeneratorObj \<lparr> prelude = 1, derivedIds = 2, memoisedRefs = 3, uidCounter = 0 \<rparr>,
      ArrayObj [], AbstractValueObj example_value]"

text \<open>A recorder for the realm of the example heap, with nothing recorded yet.\<close>

definition example_generator :: Generator where
  "example_generator = \<lparr> realm = 0, body = [], preludeGenerator = 4 \<rparr>"

section \<open>Observing an allocator, and sequences of calls on it\<close>

text \<open>
  What can be observed of the allocator at an address: the contents of its three
  containers and its counter. It is defined when the address holds an allocator whose
  three references hold containers of the right kind.
\<close>

record PreludeGeneratorState =
  prelude_of :: "BabelNodeStatement list"
  derivedIds_of :: "BabelNodeExpression set"
  memoisedRefs_of :: "string \<rightharpoonup> BabelNodeExpression"
  uidCounter_of :: nat

definition state_of :: "heap \<Rightarrow> addr \<Rightarrow> PreludeGeneratorState option" where
  "state_of h a =
     (case getPreludeGenerator h a of None \<Rightarrow> None | Some p \<Rightarrow>
     (case getStatementArray h (prelude p) of None \<Rightarrow> None | Some ps \<Rightarrow>
     (case getSet h (derivedIds p) of None \<Rightarrow> None | Some ds \<Rightarrow>
     (case getMap h (memoisedRefs p) of None \<Rightarrow> None | Some ms \<Rightarrow>
        Some \<lparr> prelude_of = ps, derivedIds_of = ds, memoisedRefs_of = ms,
               uidCounter_of = uidCounter p \<rparr>))))"

text \<open>
  The objects an allocator consists of: itself and its three containers. A heap is
  unchanged outside a set of addresses when it has only grown and every older object
  outside the set is as it was.
\<close>

definition footprint :: "heap \<Rightarrow> addr \<Rightarrow> addr set" where
  "footprint h a =
     (case getPreludeGenerator h a of
        None \<Rightarrow> {}
      | Some p \<Rightarrow> {a, prelude p, derivedIds p, memoisedRefs p})"

definition unchanged_outside :: "addr set \<Rightarrow> heap \<Rightarrow> heap \<Rightarrow> bool" where
  "unchanged_outside A h h' \<longleftrightarrow>
     length h \<le> length h' \<and> (\<forall>a < length h. a \<notin> A \<longrightarrow> h' ! a = h ! a)"

text \<open>
  The calls a client makes on one allocator: \<open>generateUid()\<close>,
  \<open>memoiseReference(key)\<close>, \<open>derivedIds.add(id)\<close> (as \<open>derive\<close> does),
  \<open>save()\<close>, and \<open>restore(saved)\<close> with one of the snapshots that \<open>save\<close>
  returned earlier, numbered in the order they were taken. A trace holds the heap, the
  snapshots, every string \<open>generateUid\<close> has returned (to the client, or to
  \<open>memoiseReference\<close>, which turns it into the identifier it returns), and, for every
  call of \<open>memoiseReference\<close>, the key, the node returned and the statements the call
  appended to the prelude.
\<close>

datatype pg_op =
    GenerateUid | MemoiseReference string | AddDerivedId BabelNodeExpression
  | Save | Restore nat

fun is_Restore :: "pg_op \<Rightarrow> bool" where
  "is_Restore (Restore i) = True"
| "is_Restore x = False"

record trace =
  t_heap :: heap
  t_saved :: "addr list"
  t_uids :: "string list"
  t_refs :: "(string \<times> BabelNodeExpression \<times> BabelNodeStatement list) list"

definition prelude_at :: "heap \<Rightarrow> addr \<Rightarrow> BabelNodeStatement list" where
  "prelude_at h this = (case state_of h this of None \<Rightarrow> [] | Some s \<Rightarrow> prelude_of s)"

definition minted :: "heap \<Rightarrow> addr \<Rightarrow> string \<Rightarrow> BabelNodeExpression \<Rightarrow> string list" where
  "minted h this key ref =
     (case state_of h this of
        None \<Rightarrow> []
      | Some s \<Rightarrow>
          (case memoisedRefs_of s key of
             Some r \<Rightarrow> []
           | None \<Rightarrow> (case ref of t_identifier uid \<Rightarrow> [uid] | _ \<Rightarrow> [])))"

fun step :: "addr \<Rightarrow> trace \<Rightarrow> pg_op \<Rightarrow> fault + trace" where
  "step this t GenerateUid =
     (case generateUid (t_heap t) this of
        Inl e \<Rightarrow> Inl e
      | Inr (uid, h) \<Rightarrow> Inr (t\<lparr>t_heap := h, t_uids := t_uids t @ [uid]\<rparr>))"
| "step this t (MemoiseReference key) =
     (case memoiseReference (t_heap t) this key of
        Inl e \<Rightarrow> Inl e
      | Inr (ref, h) \<Rightarrow>
          Inr (t\<lparr>t_heap := h, t_uids := t_uids t @ minted (t_heap t) this key ref,
                 t_refs := t_refs t @
                   [(key, ref,
                     drop (length (prelude_at (t_heap t) this)) (prelude_at h this))]\<rparr>))"
| "step this t (AddDerivedId i) =
     (case getPreludeGenerator (t_heap t) this of
        None \<Rightarrow> Inl TypeError
      | Some p \<Rightarrow>
          (case add_Set (t_heap t) (derivedIds p) i of
             Inl e \<Rightarrow> Inl e
           | Inr h \<Rightarrow> Inr (t\<lparr>t_heap := h\<rparr>)))"
| "step this t Save =
     (case save (t_heap t) this of
        Inl e \<Rightarrow> Inl e
      | Inr (s, h) \<Rightarrow> Inr (t\<lparr>t_heap := h, t_saved := t_saved t @ [s]\<rparr>))"
| "step this t (Restore i) =
     (if i < length (t_saved t)
      then (case restore (t_heap t) this (t_saved t ! i) of
              Inl e \<Rightarrow> Inl e
            | Inr h \<Rightarrow> Inr (t\<lparr>t_heap := h\<rparr>))
      else Inl TypeError)"

definition appended_for ::
  "string \<Rightarrow> (string \<times> BabelNodeExpression \<times> BabelNodeStatement list) list \<Rightarrow>
   BabelNodeStatement list" where
  "appended_for key log = concat (map (\<lambda>(k, r, st). if k = key then st else []) log)"

fun run :: "addr \<Rightarrow> trace \<Rightarrow> pg_op list \<Rightarrow> fault + trace" where
  "run this t [] = Inr t"
| "run this t (x # xs) =
     (case step this t x of Inl e \<Rightarrow> Inl e | Inr t' \<Rightarrow> run this t' xs)"

definition start :: "heap \<Rightarrow> trace" where
  "start h = \<lparr> t_heap = h, t_saved = [], t_uids = [], t_refs = [] \<rparr>"

text \<open>
  The serialiser replays the entries of a body in order, each with the nodes of its
  dependencies. \<open>defineAll\<close> replays the recipes of a sequence of entries that
  \<open>emitDefineProperty\<close> appended in its second branch, threading the heap from one to
  the next and collecting the statements.
\<close>

fun defineAll ::
  "addr \<Rightarrow> (string \<times> Descriptor \<times> BabelNodeExpression list) list \<Rightarrow> heap \<Rightarrow>
   fault + (BabelNodeStatement list \<times> heap)" where
  "defineAll pg [] hp = Inr ([], hp)"
| "defineAll pg ((key, desc, nodes) # rest) hp =
     (case definePropertyNode pg key desc nodes hp of
        Inl e \<Rightarrow> Inl e
      | Inr (st, hp1) \<Rightarrow>
          (case defineAll pg rest hp1 of
             Inl e \<Rightarrow> Inl e
           | Inr (sts, hp2) \<Rightarrow> Inr (st # sts, hp2)))"

text \<open>
  A session on a recorder: the calls a client makes on its allocator, the calls of
  \<open>derive\<close> on the recorder, and, as the serialiser makes them later, the replays of
  entries that \<open>emitDefineProperty\<close> appended in its second branch, in any order. A
  session holds the recorder, the trace of its allocator and the statements the replays
  have returned. A call of \<open>derive\<close> adds to the strings of the trace the names
  declared by the entries it appended to the body. A replay adds what its call of
  \<open>memoiseReference\<close> minted and appended, read from the callee of the statement it
  returned and from the prelude before and after. A session ends with the first call that
  raises.
\<close>

datatype rec_op =
    Call pg_op
  | Derive TypesDomain ValuesDomain addr buildNodeT "string option"
  | Replay string Descriptor "BabelNodeExpression list"

fun restores :: "rec_op \<Rightarrow> bool" where
  "restores (Call x) = is_Restore x"
| "restores x = False"

fun replays :: "rec_op \<Rightarrow> bool" where
  "replays (Replay key desc nodes) = True"
| "replays x = False"

fun declared :: "BodyEntry list \<Rightarrow> string list" where
  "declared [] = []"
| "declared (e # es) =
     (case declaresDerivedId e of
        Some (t_identifier uid) \<Rightarrow> uid # declared es
      | _ \<Rightarrow> declared es)"

fun callee_of :: "BabelNodeStatement \<Rightarrow> BabelNodeExpression list" where
  "callee_of (t_expressionStatement (t_callExpression f as)) = [f]"
| "callee_of st = []"

record session =
  recorder :: Generator
  calls :: trace
  replayed :: "BabelNodeStatement list"

fun rec_step :: "session \<Rightarrow> rec_op \<Rightarrow> fault + session" where
  "rec_step c (Call x) =
     (case step (preludeGenerator (recorder c)) (calls c) x of
        Inl e \<Rightarrow> Inl e
      | Inr t \<Rightarrow> Inr (c\<lparr>calls := t\<rparr>))"
| "rec_step c (Derive tys vals args_ref bn knd) =
     (case derive (recorder c) (t_heap (calls c)) tys vals args_ref bn knd of
        Inl e \<Rightarrow> Inl e
      | Inr (res, g, h) \<Rightarrow>
          Inr (c\<lparr>recorder := g,
                 calls := (calls c)\<lparr>t_heap := h,
                   t_uids := t_uids (calls c) @
                     declared (drop (length (body (recorder c))) (body g))\<rparr>\<rparr>))"
| "rec_step c (Replay key desc nodes) =
     (case definePropertyNode (preludeGenerator (recorder c)) key desc nodes
             (t_heap (calls c)) of
        Inl e \<Rightarrow> Inl e
      | Inr (st, h) \<Rightarrow>
          Inr (c\<lparr>calls := (calls c)\<lparr>t_heap := h,
                   t_uids := t_uids (calls c) @
                     concat (map (minted (t_heap (calls c)) (preludeGenerator (recorder c))
                                    ''Object.defineProperty'') (callee_of st)),
                   t_refs := t_refs (calls c) @
                     map (\<lambda>f. (''Object.defineProperty'', f,
                            drop (length (prelude_at (t_heap (calls c))
                                            (preludeGenerator (recorder c))))
                              (prelude_at h (preludeGenerator (recorder c)))))
                       (callee_of st)\<rparr>,
                 replayed := replayed c @ [st]\<rparr>))"

fun rec_run :: "session \<Rightarrow> rec_op list \<Rightarrow> fault + session" where
  "rec_run c [] = Inr c"
| "rec_run c (x # xs) =
     (case rec_step c x of Inl e \<Rightarrow> Inl e | Inr c' \<Rightarrow> rec_run c' xs)"

definition session_start :: "Generator \<Rightarrow> heap \<Rightarrow> session" where
  "session_start g h = \<lparr> recorder = g, calls = start h, replayed = [] \<rparr>"

text \<open>The digit of a character of the base-62 alphabet, and the number a string encodes.\<close>

fun index_of :: "'a \<Rightarrow> 'a list \<Rightarrow> nat" where
  "index_of x [] = 0"
| "index_of x (y # ys) = (if x = y then 0 else Suc (index_of x ys))"

definition base62_decode :: "string \<Rightarrow> nat" where
  "base62_decode s = foldl (\<lambda>acc c. acc * 62 + index_of c base62_chars) 0 s"

section \<open>The heap\<close>

lemma lookup_Some_less: "lookup h a = Some obj \<Longrightarrow> a < length h"
  by (simp add: lookup_def split: if_splits)

lemma getAbstractValue_less: "getAbstractValue h a = Some v \<Longrightarrow> a < length h"
  by (auto simp: getAbstractValue_def dest: lookup_Some_less split: option.splits heap_obj.splits)

lemma getRealm_less: "getRealm h a = Some r \<Longrightarrow> a < length h"
  by (auto simp: getRealm_def dest: lookup_Some_less split: option.splits heap_obj.splits)

lemma getAbstractValue_nth: "getAbstractValue h a = Some v \<Longrightarrow> h ! a = AbstractValueObj v"
  by (auto simp: getAbstractValue_def lookup_def split: if_splits option.splits heap_obj.splits)

lemma getRealm_nth: "getRealm h a = Some r \<Longrightarrow> h ! a = RealmObj r"
  by (auto simp: getRealm_def lookup_def split: if_splits option.splits heap_obj.splits)

section \<open>AbstractValue: construction, predicates, clone, promotion\<close>

lemma new_AbstractValue_eq:
  assumes "getRealm h ra = Some r"
  shows "new_AbstractValue isObj h ra tys vals as bn knd iname =
    (if \<not> isPartial r \<or> (getType tys = ObjectValue \<and> \<not> isObj) \<or>
        getType tys = NullValue \<or> getType tys = UndefinedValue
     then Inl InvariantViolation
     else Inr (length h, h @ [AbstractValueObj
            \<lparr> Realm' = ra, intrinsicName = iname, types = tys, values' = vals,
              buildNode' = bn, args = as, kind = knd, isAbstractObjectValue = isObj \<rparr>]))"
  using assms by (simp add: new_AbstractValue_def alloc_def)

lemma clone_eq:
  assumes "getAbstractValue h this = Some v" and "getRealm h (Realm' v) = Some r"
  shows "clone h this =
    (if \<not> isPartial r \<or> getType (types v) = ObjectValue \<or>
        getType (types v) = NullValue \<or> getType (types v) = UndefinedValue
     then Inl InvariantViolation
     else Inr (length h, h @ [AbstractValueObj
            \<lparr> Realm' = Realm' v, intrinsicName = None, types = types v, values' = values' v,
              buildNode' = buildNode' v, args = args v,
              kind = (if truthy_string (kind v) then kind v else None),
              isAbstractObjectValue = False \<rparr>]))"
  using assms
  by (simp add: clone_def new_AbstractValue_eq[OF assms(2)] modifyAbstractValue_def
        getAbstractValue_def lookup_def)

lemma promoteEmptyToUndefined_eq:
  assumes "getAbstractValue h this = Some v" and "getRealm h (Realm' v) = Some r"
    and "isPartial r" and "getType (types v) \<noteq> ObjectValue"
    and "getType (types v) \<noteq> NullValue" and "getType (types v) \<noteq> UndefinedValue"
    and "includesValueOfType (values' v) EmptyValue"
  shows "promoteEmptyToUndefined topVal h this = Inr (AbstractV (length h),
     h @ [AbstractValueObj
            \<lparr> Realm' = Realm' v, intrinsicName = None, types = types v,
              values' = promoteEmptyToUndefined_domain (values' v),
              buildNode' = Closure conditional, args = length h + 3,
              kind = (if truthy_string (kind v) then kind v else None),
              isAbstractObjectValue = False \<rparr>,
          ArrayObj [AbstractV this, empty' (intrinsics r)],
          AbstractValueObj
            \<lparr> Realm' = Realm' v, intrinsicName = None, types = TypesDomain BooleanValue,
              values' = topVal, buildNode' = Closure strictEquals, args = length h + 1,
              kind = None, isAbstractObjectValue = False \<rparr>,
          ArrayObj [AbstractV (length h + 2), undefined' (intrinsics r), AbstractV this]])"
proof -
  have "Realm' v < length h" using assms(2) by (rule getRealm_less)
  moreover have "this < length h" using assms(1) by (rule getAbstractValue_less)
  ultimately show ?thesis
    using assms
    by (simp add: promoteEmptyToUndefined_def clone_eq[OF assms(1,2)] modifyAbstractValue_def
          getAbstractValue_def getRealm_def alloc_def createAbstract_def new_AbstractValue_def
          lookup_def nth_append list_update_append)
qed

lemma example_heap_realm: "getRealm example_heap 0 = Some example_realm"
  by (simp add: example_heap_def getRealm_def lookup_def)

lemma example_heap_value: "getAbstractValue example_heap 6 = Some example_value"
  by (simp add: example_heap_def getAbstractValue_def lookup_def)

text \<open>
  C2. Constructing a symbolic value in a live realm \<open>r\<close> raises the internal-consistency
  fault when the realm is not in partial mode, when the type facts denote the object
  category and the instance is not the object-specialised variant, or when the type facts
  denote the null or the undefined category, whatever the value domain, the dependency
  array and the synthesis recipe are; in every other case it succeeds and returns a new
  object that holds the arguments.
\<close>

theorem AbstractValue_constructor_invariants:
  assumes "getRealm h ra = Some r"
  shows "(if \<not> isPartial r \<or> (getType tys = ObjectValue \<and> \<not> isObj) \<or>
             getType tys = NullValue \<or> getType tys = UndefinedValue
          then new_AbstractValue isObj h ra tys vals as bn knd iname = Inl InvariantViolation
          else new_AbstractValue isObj h ra tys vals as bn knd iname =
                 Inr (length h, h @ [AbstractValueObj
                   \<lparr> Realm' = ra, intrinsicName = iname, types = tys, values' = vals,
                     buildNode' = bn, args = as, kind = knd,
                     isAbstractObjectValue = isObj \<rparr>]))"
  using assms by (simp add: new_AbstractValue_def alloc_def)

theorem AbstractValue_constructor_invariants_witness:
  "getRealm example_heap 0 = Some example_realm \<and>
   new_AbstractValue False example_heap 0 (TypesDomain UndefinedValue)
     (elements_domain []) 5 (FixedNode t_nullLiteral) None None = Inl InvariantViolation \<and>
   new_AbstractValue False example_heap 0 (TypesDomain ObjectValue)
     (elements_domain []) 5 (Closure strictEquals) None None = Inl InvariantViolation \<and>
   new_AbstractValue True example_heap 0 (TypesDomain ObjectValue)
     (elements_domain []) 5 (Closure strictEquals) None None =
     Inr (7, example_heap @ [AbstractValueObj
       \<lparr> Realm' = 0, intrinsicName = None, types = TypesDomain ObjectValue,
         values' = elements_domain [], buildNode' = Closure strictEquals, args = 5,
         kind = None, isAbstractObjectValue = True \<rparr>])"
  using AbstractValue_constructor_invariants [OF example_heap_realm,
          of "TypesDomain UndefinedValue" False "elements_domain []" 5
             "FixedNode t_nullLiteral" None None]
        AbstractValue_constructor_invariants [OF example_heap_realm,
          of "TypesDomain ObjectValue" False "elements_domain []" 5
             "Closure strictEquals" None None]
        AbstractValue_constructor_invariants [OF example_heap_realm,
          of "TypesDomain ObjectValue" True "elements_domain []" 5
             "Closure strictEquals" None None]
        example_heap_realm
  by (simp add: example_realm_def example_heap_def)

text \<open>
  C3. When the resolved type of a symbolic value is exactly Number, \<open>mightBeNumber\<close> is
  true and \<open>mightNotBeNumber\<close> is false, whatever its value domain holds; when it is
  not, each predicate returns the answer of the value domain's membership query for
  Number (\<open>includesValueOfType\<close>, \<open>includesValueNotOfType\<close>).
\<close>

theorem mightBeNumber_mightNotBeNumber:
  "(getType (types v) = NumberValue \<longrightarrow> mightBeNumber v \<and> \<not> mightNotBeNumber v) \<and>
   (getType (types v) \<noteq> NumberValue \<longrightarrow>
      mightBeNumber v = includesValueOfType (values' v) NumberValue \<and>
      mightNotBeNumber v = includesValueNotOfType (values' v) NumberValue)"
  by (simp add: mightBeNumber_def mightNotBeNumber_def getType_AbstractValue_def)

theorem mightBeNumber_mightNotBeNumber_witness:
  "mightBeNumber (example_value\<lparr>values' := elements_domain [StringValue]\<rparr>) \<and>
   \<not> mightNotBeNumber (example_value\<lparr>values' := elements_domain [StringValue]\<rparr>) \<and>
   \<not> mightBeNumber
       (example_value\<lparr>types := TypesDomain Value, values' := elements_domain [StringValue]\<rparr>) \<and>
   mightNotBeNumber
       (example_value\<lparr>types := TypesDomain Value, values' := elements_domain [StringValue]\<rparr>)"
  using mightBeNumber_mightNotBeNumber
          [of "example_value\<lparr>values' := elements_domain [StringValue]\<rparr>"]
        mightBeNumber_mightNotBeNumber
          [of "example_value\<lparr>types := TypesDomain Value,
                             values' := elements_domain [StringValue]\<rparr>"]
  by (simp add: example_value_def)

text \<open>
  C10. \<open>clone\<close>, called on a symbolic value \<open>v\<close> that satisfies the invariants of the
  constructor of its class, returns a new object, different from \<open>v\<close>, whose
  \<open>intrinsicName\<close> is unset whatever the \<open>intrinsicName\<close> of \<open>v\<close> is, and whose
  \<open>args\<close> field is the very reference held by \<open>v\<close>: both point to one array object,
  and no copy of the array is allocated (the heap grows by the clone alone). The original
  is left as it was.
\<close>

theorem clone_intrinsicName_unset_args_shared:
  assumes "getAbstractValue h this = Some v" and "getRealm h (Realm' v) = Some r"
    and "isPartial r" and "getType (types v) \<noteq> ObjectValue"
    and "getType (types v) \<noteq> NullValue" and "getType (types v) \<noteq> UndefinedValue"
  shows "\<exists>c h' cv. clone h this = Inr (c, h') \<and> c \<noteq> this \<and>
           getAbstractValue h c = None \<and> length h' = length h + 1 \<and>
           getAbstractValue h' this = Some v \<and>
           getAbstractValue h' c = Some cv \<and>
           intrinsicName cv = None \<and> args cv = args v \<and>
           getArray h' (args cv) = getArray h (args v) \<and>
           types cv = types v \<and> values' cv = values' v \<and> buildNode' cv = buildNode' v"
proof -
  have "this < length h" using assms(1) by (rule getAbstractValue_less)
  then show ?thesis
    using assms
    by (simp add: clone_eq[OF assms(1,2)] getAbstractValue_def getArray_def lookup_def
          nth_append)
qed

theorem clone_intrinsicName_unset_args_shared_witness:
  "intrinsicName example_value = Some ''_7'' \<and>
   (\<exists>c h' cv. clone example_heap 6 = Inr (c, h') \<and> c \<noteq> 6 \<and>
      getAbstractValue example_heap c = None \<and> length h' = length example_heap + 1 \<and>
      getAbstractValue h' 6 = Some example_value \<and>
      getAbstractValue h' c = Some cv \<and>
      intrinsicName cv = None \<and> args cv = 5 \<and>
      getArray h' (args cv) = getArray example_heap 5 \<and>
      types cv = types example_value \<and> values' cv = values' example_value \<and>
      buildNode' cv = buildNode' example_value)"
proof -
  have r: "getRealm example_heap (Realm' example_value) = Some example_realm"
    by (simp add: example_value_def example_heap_realm)
  have p: "isPartial example_realm"
    by (simp add: example_realm_def)
  have t: "getType (types example_value) \<noteq> ObjectValue"
    "getType (types example_value) \<noteq> NullValue"
    "getType (types example_value) \<noteq> UndefinedValue"
    by (simp_all add: example_value_def)
  have a: "args example_value = 5" "intrinsicName example_value = Some ''_7''"
    by (simp_all add: example_value_def)
  show ?thesis
    using clone_intrinsicName_unset_args_shared [OF example_heap_value r p t] a
    by simp
qed

text \<open>
  C4. Let \<open>v\<close> be the symbolic value at \<open>this\<close>. If its value domain cannot include the
  deletion sentinel, \<open>promoteEmptyToUndefined\<close> returns \<open>this\<close> itself and the heap is
  unchanged: nothing is allocated and nothing recorded. Otherwise, for \<open>v\<close> satisfying
  the invariants of the constructor of its class, it returns a new object, different from
  \<open>this\<close>, whose value domain is the promoted domain of \<open>v\<close>, whose dependencies are
  exactly the guard, the undefined constant and \<open>this\<close>, and whose recipe builds the
  conditional expression of the three nodes; the guard is a new symbolic value of type
  Boolean, with dependencies \<open>this\<close> and the deletion-sentinel constant and a recipe
  that builds the strict equality of the two nodes. The objects that existed before are
  left as they were.
\<close>

theorem promoteEmptyToUndefined_result:
  assumes "getAbstractValue h this = Some v"
  shows "(\<not> includesValueOfType (values' v) EmptyValue \<longrightarrow>
            promoteEmptyToUndefined topVal h this = Inr (AbstractV this, h)) \<and>
         (includesValueOfType (values' v) EmptyValue \<and>
          getRealm h (Realm' v) = Some r \<and> isPartial r \<and>
          getType (types v) \<noteq> ObjectValue \<and> getType (types v) \<noteq> NullValue \<and>
          getType (types v) \<noteq> UndefinedValue \<longrightarrow>
            (\<exists>result h' rv guard gv.
               promoteEmptyToUndefined topVal h this = Inr (AbstractV result, h') \<and>
               result \<noteq> this \<and> lookup h result = None \<and> take (length h) h' = h \<and>
               getAbstractValue h' result = Some rv \<and>
               types rv = types v \<and>
               values' rv = promoteEmptyToUndefined_domain (values' v) \<and>
               getArray h' (args rv) =
                 Some [AbstractV guard, undefined' (intrinsics r), AbstractV this] \<and>
               buildNode rv [n0, n1, n2] = Inr (t_conditionalExpression n0 n1 n2) \<and>
               guard \<noteq> this \<and> guard \<noteq> result \<and> lookup h guard = None \<and>
               getAbstractValue h' guard = Some gv \<and>
               types gv = TypesDomain BooleanValue \<and> values' gv = topVal \<and>
               getArray h' (args gv) = Some [AbstractV this, empty' (intrinsics r)] \<and>
               buildNode gv [x, y] = Inr (t_binaryExpression ''==='' x y)))"
proof (intro conjI impI)
  assume "\<not> includesValueOfType (values' v) EmptyValue"
  then show "promoteEmptyToUndefined topVal h this = Inr (AbstractV this, h)"
    using assms by (simp add: promoteEmptyToUndefined_def)
next
  assume a: "includesValueOfType (values' v) EmptyValue \<and>
          getRealm h (Realm' v) = Some r \<and> isPartial r \<and>
          getType (types v) \<noteq> ObjectValue \<and> getType (types v) \<noteq> NullValue \<and>
          getType (types v) \<noteq> UndefinedValue"
  have lt: "this < length h" using assms by (rule getAbstractValue_less)
  have eq: "promoteEmptyToUndefined topVal h this = Inr (AbstractV (length h),
     h @ [AbstractValueObj
            \<lparr> Realm' = Realm' v, intrinsicName = None, types = types v,
              values' = promoteEmptyToUndefined_domain (values' v),
              buildNode' = Closure conditional, args = length h + 3,
              kind = (if truthy_string (kind v) then kind v else None),
              isAbstractObjectValue = False \<rparr>,
          ArrayObj [AbstractV this, empty' (intrinsics r)],
          AbstractValueObj
            \<lparr> Realm' = Realm' v, intrinsicName = None, types = TypesDomain BooleanValue,
              values' = topVal, buildNode' = Closure strictEquals, args = length h + 1,
              kind = None, isAbstractObjectValue = False \<rparr>,
          ArrayObj [AbstractV (length h + 2), undefined' (intrinsics r), AbstractV this]])"
    using a by (intro promoteEmptyToUndefined_eq [OF assms]) simp_all
  show "\<exists>result h' rv guard gv.
               promoteEmptyToUndefined topVal h this = Inr (AbstractV result, h') \<and>
               result \<noteq> this \<and> lookup h result = None \<and> take (length h) h' = h \<and>
               getAbstractValue h' result = Some rv \<and>
               types rv = types v \<and>
               values' rv = promoteEmptyToUndefined_domain (values' v) \<and>
               getArray h' (args rv) =
                 Some [AbstractV guard, undefined' (intrinsics r), AbstractV this] \<and>
               buildNode rv [n0, n1, n2] = Inr (t_conditionalExpression n0 n1 n2) \<and>
               guard \<noteq> this \<and> guard \<noteq> result \<and> lookup h guard = None \<and>
               getAbstractValue h' guard = Some gv \<and>
               types gv = TypesDomain BooleanValue \<and> values' gv = topVal \<and>
               getArray h' (args gv) = Some [AbstractV this, empty' (intrinsics r)] \<and>
               buildNode gv [x, y] = Inr (t_binaryExpression ''==='' x y)"
    unfolding eq using lt
    by (intro exI [of _ "length h"])
       (simp add: getAbstractValue_def getArray_def lookup_def nth_append buildNode_def)
qed

theorem promoteEmptyToUndefined_result_witness:
  "promoteEmptyToUndefined (elements_domain [])
     (example_heap[6 := AbstractValueObj
        (example_value\<lparr>values' := elements_domain [NumberValue]\<rparr>)]) 6 =
     Inr (AbstractV 6, example_heap[6 := AbstractValueObj
        (example_value\<lparr>values' := elements_domain [NumberValue]\<rparr>)]) \<and>
   (\<exists>result h' rv guard gv.
      promoteEmptyToUndefined (elements_domain []) example_heap 6 =
        Inr (AbstractV result, h') \<and>
      result \<noteq> 6 \<and> lookup example_heap result = None \<and>
      take (length example_heap) h' = example_heap \<and>
      getAbstractValue h' result = Some rv \<and>
      types rv = types example_value \<and>
      values' rv = promoteEmptyToUndefined_domain (values' example_value) \<and>
      getArray h' (args rv) = Some [AbstractV guard, ConcreteV 0 0, AbstractV 6] \<and>
      buildNode rv [t_identifier ''g'', t_identifier ''u'', t_identifier ''v''] =
        Inr (t_conditionalExpression (t_identifier ''g'') (t_identifier ''u'')
               (t_identifier ''v'')) \<and>
      guard \<noteq> 6 \<and> guard \<noteq> result \<and> lookup example_heap guard = None \<and>
      getAbstractValue h' guard = Some gv \<and>
      types gv = TypesDomain BooleanValue \<and> values' gv = elements_domain [] \<and>
      getArray h' (args gv) = Some [AbstractV 6, ConcreteV 0 1] \<and>
      buildNode gv [t_identifier ''v'', t_identifier ''e''] =
        Inr (t_binaryExpression ''==='' (t_identifier ''v'') (t_identifier ''e'')))"
proof -
  have v1: "getAbstractValue
      (example_heap[6 := AbstractValueObj
         (example_value\<lparr>values' := elements_domain [NumberValue]\<rparr>)]) 6 =
      Some (example_value\<lparr>values' := elements_domain [NumberValue]\<rparr>)"
    by (simp add: example_heap_def getAbstractValue_def lookup_def)
  have n: "\<not> includesValueOfType
      (values' (example_value\<lparr>values' := elements_domain [NumberValue]\<rparr>)) EmptyValue"
    by simp
  have y: "includesValueOfType (values' example_value) EmptyValue \<and>
      getRealm example_heap (Realm' example_value) = Some example_realm \<and>
      isPartial example_realm \<and>
      getType (types example_value) \<noteq> ObjectValue \<and>
      getType (types example_value) \<noteq> NullValue \<and>
      getType (types example_value) \<noteq> UndefinedValue"
    by (simp add: example_value_def example_heap_realm example_realm_def)
  have i: "undefined' (intrinsics example_realm) = ConcreteV 0 0"
    "empty' (intrinsics example_realm) = ConcreteV 0 1"
    by (simp_all add: example_realm_def)
  show ?thesis
    using promoteEmptyToUndefined_result [OF v1, of "elements_domain []"] n
          promoteEmptyToUndefined_result [OF example_heap_value,
            of "elements_domain []" example_realm "t_identifier ''g''" "t_identifier ''u''"
               "t_identifier ''v''" "t_identifier ''v''" "t_identifier ''e''"] y i
    by simp
qed

section \<open>PreludeGenerator: identifiers, memoised references, snapshots\<close>

subsection \<open>Incrementing the counter\<close>

lemma number_increment_exact: "x < 2 ^ 53 \<Longrightarrow> number_increment x = x + 1"
  by (simp add: number_increment_def)

lemma number_increment_limit: "number_increment (2 ^ 53) = 2 ^ 53"
  by (simp add: number_increment_def)

lemma number_increment_small [simp]:
  "number_increment 0 = 1" "number_increment (Suc 0) = 2" "number_increment 1 = 2"
  by (simp_all add: number_increment_def)

subsection \<open>The encoding is injective\<close>

lemma index_of_nth: "distinct xs \<Longrightarrow> i < length xs \<Longrightarrow> index_of (xs ! i) xs = i"
proof (induction xs arbitrary: i)
  case Nil then show ?case by simp
next
  case (Cons y ys)
  show ?case
  proof (cases i)
    case 0 then show ?thesis by simp
  next
    case (Suc j)
    with Cons.prems have "ys ! j \<in> set ys" by simp
    with Cons.prems have "ys ! j \<noteq> y" by auto
    with Cons Suc show ?thesis by simp
  qed
qed

lemma base62_chars_distinct: "distinct base62_chars"
  by (simp add: base62_chars_def)

lemma base62_chars_length: "length base62_chars = 62"
  by (simp add: base62_chars_def)

lemma base62_digit: "d < 62 \<Longrightarrow> index_of (base62_chars ! d) base62_chars = d"
  by (rule index_of_nth) (simp_all add: base62_chars_distinct base62_chars_length)

lemma foldl_base62_loop:
  "foldl (\<lambda>acc c. acc * 62 + index_of c base62_chars) 0 (base62_loop n s) =
   foldl (\<lambda>acc c. acc * 62 + index_of c base62_chars) n s"
proof (induction n s rule: base62_loop.induct)
  case (1 n s)
  show ?case
  proof (cases "0 < n")
    case True
    have "n div 62 * 62 + n mod 62 = n" by simp
    with True 1 show ?thesis
      by (subst base62_loop.simps) (simp add: base62_digit)
  next
    case False
    then show ?thesis by (subst base62_loop.simps) simp
  qed
qed

lemma base62_decode_encode: "base62_decode (base62_encode n) = n"
proof (cases "n = 0")
  case True
  have "index_of CHR ''0'' base62_chars = 0" by (simp add: base62_chars_def)
  with True show ?thesis by (simp add: base62_decode_def base62_encode_def)
next
  case False
  then show ?thesis
    using foldl_base62_loop [of n "[]"] by (simp add: base62_decode_def base62_encode_def)
qed

lemma base62_encode_inj: "base62_encode m = base62_encode n \<Longrightarrow> m = n"
  by (metis base62_decode_encode)

subsection \<open>The effect of each call on the observed state\<close>

lemma getPreludeGenerator_Some: "getPreludeGenerator h a = Some p \<longleftrightarrow> lookup h a = Some (PreludeGeneratorObj p)"
  by (cases "lookup h a"; simp add: getPreludeGenerator_def split: heap_obj.splits)

lemma getStatementArray_Some: "getStatementArray h a = Some p \<longleftrightarrow> lookup h a = Some (StatementArrayObj p)"
  by (cases "lookup h a"; simp add: getStatementArray_def split: heap_obj.splits)

lemma getSet_Some: "getSet h a = Some p \<longleftrightarrow> lookup h a = Some (SetObj p)"
  by (cases "lookup h a"; simp add: getSet_def split: heap_obj.splits)

lemma getMap_Some: "getMap h a = Some p \<longleftrightarrow> lookup h a = Some (MapObj p)"
  by (cases "lookup h a"; simp add: getMap_def split: heap_obj.splits)

lemma state_of_Some_iff:
  "state_of h a = Some s \<longleftrightarrow>
     (\<exists>p. lookup h a = Some (PreludeGeneratorObj p) \<and>
          lookup h (prelude p) = Some (StatementArrayObj (prelude_of s)) \<and>
          lookup h (derivedIds p) = Some (SetObj (derivedIds_of s)) \<and>
          lookup h (memoisedRefs p) = Some (MapObj (memoisedRefs_of s)) \<and>
          uidCounter p = uidCounter_of s)"
proof
  assume "state_of h a = Some s"
  then obtain p ps ds ms where
    "getPreludeGenerator h a = Some p" "getStatementArray h (prelude p) = Some ps"
    "getSet h (derivedIds p) = Some ds" "getMap h (memoisedRefs p) = Some ms"
    "s = \<lparr> prelude_of = ps, derivedIds_of = ds, memoisedRefs_of = ms, uidCounter_of = uidCounter p \<rparr>"
    by (simp add: state_of_def split: option.splits)
  then show "\<exists>p. lookup h a = Some (PreludeGeneratorObj p) \<and>
          lookup h (prelude p) = Some (StatementArrayObj (prelude_of s)) \<and>
          lookup h (derivedIds p) = Some (SetObj (derivedIds_of s)) \<and>
          lookup h (memoisedRefs p) = Some (MapObj (memoisedRefs_of s)) \<and>
          uidCounter p = uidCounter_of s"
    by (simp add: getPreludeGenerator_Some getStatementArray_Some getSet_Some getMap_Some)
next
  assume "\<exists>p. lookup h a = Some (PreludeGeneratorObj p) \<and>
          lookup h (prelude p) = Some (StatementArrayObj (prelude_of s)) \<and>
          lookup h (derivedIds p) = Some (SetObj (derivedIds_of s)) \<and>
          lookup h (memoisedRefs p) = Some (MapObj (memoisedRefs_of s)) \<and>
          uidCounter p = uidCounter_of s"
  then show "state_of h a = Some s"
    by (cases s)
       (auto simp: state_of_def getPreludeGenerator_def getStatementArray_def getSet_def getMap_def)
qed

lemma lookup_Some_iff: "lookup h a = Some obj \<longleftrightarrow> a < length h \<and> h ! a = obj"
  by (auto simp: lookup_def)

lemma unchanged_outside_lookup:
  "unchanged_outside A h h' \<Longrightarrow> a \<notin> A \<Longrightarrow> lookup h a = Some obj \<Longrightarrow> lookup h' a = Some obj"
  by (auto simp: unchanged_outside_def lookup_Some_iff)

lemma unchanged_outside_refl: "unchanged_outside A h h"
  by (simp add: unchanged_outside_def)

lemma unchanged_outside_trans:
  "unchanged_outside A h1 h2 \<Longrightarrow> unchanged_outside B h2 h3 \<Longrightarrow> B \<inter> {..< length h1} \<subseteq> A \<Longrightarrow>
   unchanged_outside A h1 h3"
proof -
  assume 1: "unchanged_outside A h1 h2" and 2: "unchanged_outside B h2 h3"
    and 3: "B \<inter> {..< length h1} \<subseteq> A"
  have "h3 ! a = h1 ! a" if "a < length h1" "a \<notin> A" for a
  proof -
    from that 3 have "a \<notin> B" by auto
    moreover from that 1 have "a < length h2" "h2 ! a = h1 ! a"
      by (auto simp: unchanged_outside_def)
    ultimately show ?thesis using 2 by (simp add: unchanged_outside_def)
  qed
  moreover have "length h1 \<le> length h3"
    using 1 2 by (simp add: unchanged_outside_def)
  ultimately show ?thesis by (simp add: unchanged_outside_def)
qed

lemma footprint_eq:
  "lookup h a = Some (PreludeGeneratorObj p) \<Longrightarrow>
   footprint h a = {a, prelude p, derivedIds p, memoisedRefs p}"
  by (simp add: footprint_def getPreludeGenerator_def)

lemma state_of_frame:
  assumes "state_of h b = Some s" and "unchanged_outside A h h'" and "footprint h b \<inter> A = {}"
  shows "state_of h' b = Some s \<and> footprint h' b = footprint h b"
proof -
  from assms(1) obtain p where p: "lookup h b = Some (PreludeGeneratorObj p)"
    "lookup h (prelude p) = Some (StatementArrayObj (prelude_of s))"
    "lookup h (derivedIds p) = Some (SetObj (derivedIds_of s))"
    "lookup h (memoisedRefs p) = Some (MapObj (memoisedRefs_of s))"
    "uidCounter p = uidCounter_of s"
    by (auto simp: state_of_Some_iff)
  have fp: "footprint h b = {b, prelude p, derivedIds p, memoisedRefs p}"
    using p(1) by (rule footprint_eq)
  with assms(3) have nin: "b \<notin> A" "prelude p \<notin> A" "derivedIds p \<notin> A" "memoisedRefs p \<notin> A"
    by auto
  have p': "lookup h' b = Some (PreludeGeneratorObj p)"
    "lookup h' (prelude p) = Some (StatementArrayObj (prelude_of s))"
    "lookup h' (derivedIds p) = Some (SetObj (derivedIds_of s))"
    "lookup h' (memoisedRefs p) = Some (MapObj (memoisedRefs_of s))"
    using p nin assms(2) by (auto intro: unchanged_outside_lookup)
  then have "state_of h' b = Some s"
    using p(5) by (auto simp: state_of_Some_iff)
  moreover have "footprint h' b = footprint h b"
    using p'(1) fp by (simp add: footprint_eq)
  ultimately show ?thesis by simp
qed

lemma footprint_less: "state_of h b = Some s \<Longrightarrow> a \<in> footprint h b \<Longrightarrow> a < length h"
  by (auto simp: state_of_Some_iff footprint_eq lookup_Some_iff)

lemma generateUid_effect:
  assumes "state_of h this = Some s"
  shows "\<exists>h'. generateUid h this = Inr (''_'' @ base62_encode (uidCounter_of s), h') \<and>
           state_of h' this = Some (s\<lparr>uidCounter_of := number_increment (uidCounter_of s)\<rparr>) \<and>
           footprint h' this = footprint h this \<and> length h' = length h \<and>
           unchanged_outside {this} h h'"
proof -
  from assms obtain p where p: "lookup h this = Some (PreludeGeneratorObj p)"
    "lookup h (prelude p) = Some (StatementArrayObj (prelude_of s))"
    "lookup h (derivedIds p) = Some (SetObj (derivedIds_of s))"
    "lookup h (memoisedRefs p) = Some (MapObj (memoisedRefs_of s))"
    "uidCounter p = uidCounter_of s"
    by (auto simp: state_of_Some_iff)
  have ne: "prelude p \<noteq> this" "derivedIds p \<noteq> this" "memoisedRefs p \<noteq> this"
    using p by auto
  let ?h' = "h[this := PreludeGeneratorObj (p\<lparr>uidCounter := number_increment (uidCounter p)\<rparr>)]"
  have g: "generateUid h this = Inr (''_'' @ base62_encode (uidCounter_of s), ?h')"
    using p by (simp add: generateUid_def getPreludeGenerator_def)
  have l: "lookup ?h' this = Some (PreludeGeneratorObj (p\<lparr>uidCounter := number_increment (uidCounter p)\<rparr>))"
    "lookup ?h' (prelude p) = Some (StatementArrayObj (prelude_of s))"
    "lookup ?h' (derivedIds p) = Some (SetObj (derivedIds_of s))"
    "lookup ?h' (memoisedRefs p) = Some (MapObj (memoisedRefs_of s))"
    using p ne by (simp_all add: lookup_Some_iff)
  have s': "state_of ?h' this = Some (s\<lparr>uidCounter_of := number_increment (uidCounter_of s)\<rparr>)"
    unfolding state_of_Some_iff using l p(5) by (intro exI[of _ "p\<lparr>uidCounter := number_increment (uidCounter p)\<rparr>"]) simp
  have f: "footprint ?h' this = footprint h this"
    using l(1) p(1) by (simp add: footprint_eq)
  have u: "unchanged_outside {this} h ?h'"
    by (simp add: unchanged_outside_def)
  show ?thesis using g s' f u by simp
qed


lemma state_of_obtain:
  assumes "state_of h a = Some s"
  obtains p where "lookup h a = Some (PreludeGeneratorObj p)"
    "lookup h (prelude p) = Some (StatementArrayObj (prelude_of s))"
    "lookup h (derivedIds p) = Some (SetObj (derivedIds_of s))"
    "lookup h (memoisedRefs p) = Some (MapObj (memoisedRefs_of s))"
    "uidCounter p = uidCounter_of s"
    "prelude p \<noteq> a" "derivedIds p \<noteq> a" "memoisedRefs p \<noteq> a"
    "prelude p \<noteq> derivedIds p" "prelude p \<noteq> memoisedRefs p" "derivedIds p \<noteq> memoisedRefs p"
    "a < length h" "prelude p < length h" "derivedIds p < length h" "memoisedRefs p < length h"
proof -
  from assms obtain p where p: "lookup h a = Some (PreludeGeneratorObj p)"
    "lookup h (prelude p) = Some (StatementArrayObj (prelude_of s))"
    "lookup h (derivedIds p) = Some (SetObj (derivedIds_of s))"
    "lookup h (memoisedRefs p) = Some (MapObj (memoisedRefs_of s))"
    "uidCounter p = uidCounter_of s"
    by (auto simp: state_of_Some_iff)
  have "prelude p \<noteq> a" "derivedIds p \<noteq> a" "memoisedRefs p \<noteq> a"
    "prelude p \<noteq> derivedIds p" "prelude p \<noteq> memoisedRefs p" "derivedIds p \<noteq> memoisedRefs p"
    using p by auto
  moreover have "a < length h" "prelude p < length h" "derivedIds p < length h" "memoisedRefs p < length h"
    using p by (simp_all add: lookup_Some_iff)
  ultimately show ?thesis using p that by blast
qed

lemma state_of_intro:
  "lookup h a = Some (PreludeGeneratorObj p) \<Longrightarrow>
   lookup h (prelude p) = Some (StatementArrayObj ps) \<Longrightarrow>
   lookup h (derivedIds p) = Some (SetObj ds) \<Longrightarrow>
   lookup h (memoisedRefs p) = Some (MapObj ms) \<Longrightarrow>
   state_of h a = Some \<lparr> prelude_of = ps, derivedIds_of = ds, memoisedRefs_of = ms,
               uidCounter_of = uidCounter p \<rparr>"
  by (simp add: state_of_def getPreludeGenerator_def getStatementArray_def getSet_def getMap_def)

lemma addDerivedId_effect:
  assumes "state_of h this = Some s"
  shows "\<exists>p h'. getPreludeGenerator h this = Some p \<and> add_Set h (derivedIds p) i = Inr h' \<and>
           state_of h' this = Some (s\<lparr>derivedIds_of := insert i (derivedIds_of s)\<rparr>) \<and>
           footprint h' this = footprint h this \<and>
           unchanged_outside (footprint h this) h h'"
proof -
  from assms obtain p where p: "lookup h this = Some (PreludeGeneratorObj p)"
    "lookup h (prelude p) = Some (StatementArrayObj (prelude_of s))"
    "lookup h (derivedIds p) = Some (SetObj (derivedIds_of s))"
    "lookup h (memoisedRefs p) = Some (MapObj (memoisedRefs_of s))"
    "uidCounter p = uidCounter_of s"
    "prelude p \<noteq> this" "derivedIds p \<noteq> this" "memoisedRefs p \<noteq> this"
    "prelude p \<noteq> derivedIds p" "prelude p \<noteq> memoisedRefs p" "derivedIds p \<noteq> memoisedRefs p"
    "this < length h" "prelude p < length h" "derivedIds p < length h" "memoisedRefs p < length h"
    by (rule state_of_obtain)
  let ?h' = "h[derivedIds p := SetObj (insert i (derivedIds_of s))]"
  have a: "add_Set h (derivedIds p) i = Inr ?h'"
    using p(3) by (simp add: add_Set_def getSet_def)
  have l: "lookup ?h' this = Some (PreludeGeneratorObj p)"
    "lookup ?h' (prelude p) = Some (StatementArrayObj (prelude_of s))"
    "lookup ?h' (derivedIds p) = Some (SetObj (insert i (derivedIds_of s)))"
    "lookup ?h' (memoisedRefs p) = Some (MapObj (memoisedRefs_of s))"
    using p by (simp_all add: lookup_Some_iff)
  have "state_of ?h' this = Some \<lparr> prelude_of = prelude_of s,
      derivedIds_of = insert i (derivedIds_of s), memoisedRefs_of = memoisedRefs_of s,
      uidCounter_of = uidCounter p \<rparr>"
    using l by (rule state_of_intro)
  then have s': "state_of ?h' this = Some (s\<lparr>derivedIds_of := insert i (derivedIds_of s)\<rparr>)"
    using p(5) by simp
  have f: "footprint ?h' this = footprint h this"
    using l(1) p(1) by (simp add: footprint_eq)
  have u: "unchanged_outside (footprint h this) h ?h'"
    using p(1) by (simp add: unchanged_outside_def footprint_eq nth_list_update)
  show ?thesis using a s' f u p(1) by (simp add: getPreludeGenerator_Some)
qed

lemma memoiseReference_hit:
  assumes "state_of h this = Some s" and "memoisedRefs_of s key = Some ref"
  shows "memoiseReference h this key = Inr (ref, h)"
proof -
  from assms(1) obtain p where p: "lookup h this = Some (PreludeGeneratorObj p)"
    "lookup h (memoisedRefs p) = Some (MapObj (memoisedRefs_of s))"
    by (auto simp: state_of_Some_iff)
  then show ?thesis
    using assms(2) by (simp add: memoiseReference_def getPreludeGenerator_def getMap_def)
qed

lemma split_str_not_Nil: "split_str sep s \<noteq> []"
  by (induction s) (auto split: list.splits)

lemma convertStringToMember_total: "\<exists>e. convertStringToMember key = Inr e"
  using split_str_not_Nil [of "CHR ''.''" key]
  by (cases "split_str CHR ''.'' key") (simp_all add: convertStringToMember_def)

lemma memoiseReference_miss:
  assumes "state_of h this = Some s" and "memoisedRefs_of s key = None"
    and "convertStringToMember key = Inr member"
  shows "\<exists>h'. memoiseReference h this key =
             Inr (t_identifier (''_'' @ base62_encode (uidCounter_of s)), h') \<and>
           state_of h' this = Some (s\<lparr>
             prelude_of := prelude_of s @
               [t_variableDeclaration ''var''
                  [(t_identifier (''_'' @ base62_encode (uidCounter_of s)), member)]],
             memoisedRefs_of := (memoisedRefs_of s)
               (key \<mapsto> t_identifier (''_'' @ base62_encode (uidCounter_of s))),
             uidCounter_of := number_increment (uidCounter_of s)\<rparr>) \<and>
           footprint h' this = footprint h this \<and>
           unchanged_outside (footprint h this) h h'"
proof -
  from assms(1) obtain p where p: "lookup h this = Some (PreludeGeneratorObj p)"
    "lookup h (prelude p) = Some (StatementArrayObj (prelude_of s))"
    "lookup h (derivedIds p) = Some (SetObj (derivedIds_of s))"
    "lookup h (memoisedRefs p) = Some (MapObj (memoisedRefs_of s))"
    "uidCounter p = uidCounter_of s"
    "prelude p \<noteq> this" "derivedIds p \<noteq> this" "memoisedRefs p \<noteq> this"
    "prelude p \<noteq> derivedIds p" "prelude p \<noteq> memoisedRefs p" "derivedIds p \<noteq> memoisedRefs p"
    "this < length h" "prelude p < length h" "derivedIds p < length h" "memoisedRefs p < length h"
    by (rule state_of_obtain)
  let ?ref = "t_identifier (''_'' @ base62_encode (uidCounter_of s))"
  let ?p' = "p\<lparr>uidCounter := number_increment (uidCounter p)\<rparr>"
  let ?ps = "prelude_of s @ [t_variableDeclaration ''var'' [(?ref, member)]]"
  let ?ms = "(memoisedRefs_of s)(key \<mapsto> ?ref)"
  let ?h' = "h[this := PreludeGeneratorObj ?p', prelude p := StatementArrayObj ?ps,
               memoisedRefs p := MapObj ?ms]"
  have m: "memoiseReference h this key = Inr (?ref, ?h')"
    using p assms(2,3)
    by (simp add: memoiseReference_def generateUid_def getPreludeGenerator_def getMap_def
          push_StatementArray_def getStatementArray_def set_Map_def lookup_def Let_def)
  have l: "lookup ?h' this = Some (PreludeGeneratorObj ?p')"
    "lookup ?h' (prelude ?p') = Some (StatementArrayObj ?ps)"
    "lookup ?h' (derivedIds ?p') = Some (SetObj (derivedIds_of s))"
    "lookup ?h' (memoisedRefs ?p') = Some (MapObj ?ms)"
    using p by (simp_all add: lookup_Some_iff)
  have "state_of ?h' this = Some \<lparr> prelude_of = ?ps, derivedIds_of = derivedIds_of s,
      memoisedRefs_of = ?ms, uidCounter_of = uidCounter ?p' \<rparr>"
    using l by (rule state_of_intro)
  then have s': "state_of ?h' this = Some (s\<lparr>prelude_of := ?ps, memoisedRefs_of := ?ms,
      uidCounter_of := number_increment (uidCounter_of s)\<rparr>)"
    using p(5) by simp
  have f: "footprint ?h' this = footprint h this"
    using l(1) p(1) by (simp add: footprint_eq)
  have u: "unchanged_outside (footprint h this) h ?h'"
    using p(1) by (simp add: unchanged_outside_def footprint_eq nth_list_update)
  show ?thesis using m s' f u by blast
qed


lemma copyPG_effect:
  assumes "state_of h from = Some s" and "lookup h to = Some (PreludeGeneratorObj t)"
    and "from \<noteq> to"
  shows "\<exists>h'. copyPG h from to = Inr h' \<and>
           state_of h' to = Some s \<and> state_of h' from = Some s \<and>
           footprint h' to = {to, length h, length h + 1, length h + 2} \<and>
           footprint h' from = footprint h from \<and>
           length h' = length h + 3 \<and> unchanged_outside {to} h h'"
proof -
  from assms(1) obtain p where p: "lookup h from = Some (PreludeGeneratorObj p)"
    "lookup h (prelude p) = Some (StatementArrayObj (prelude_of s))"
    "lookup h (derivedIds p) = Some (SetObj (derivedIds_of s))"
    "lookup h (memoisedRefs p) = Some (MapObj (memoisedRefs_of s))"
    "uidCounter p = uidCounter_of s"
    "prelude p \<noteq> from" "derivedIds p \<noteq> from" "memoisedRefs p \<noteq> from"
    "prelude p \<noteq> derivedIds p" "prelude p \<noteq> memoisedRefs p" "derivedIds p \<noteq> memoisedRefs p"
    "from < length h" "prelude p < length h" "derivedIds p < length h" "memoisedRefs p < length h"
    by (rule state_of_obtain)
  have ne: "prelude p \<noteq> to" "derivedIds p \<noteq> to" "memoisedRefs p \<noteq> to"
    using p(2-4) assms(2) by auto
  have lt: "to < length h" using assms(2) by (simp add: lookup_Some_iff)
  let ?t' = "t\<lparr> prelude := length h, derivedIds := length h + 1, memoisedRefs := length h + 2,
               uidCounter := uidCounter p \<rparr>"
  let ?h' = "(h @ [StatementArrayObj (prelude_of s), SetObj (derivedIds_of s),
                   MapObj (memoisedRefs_of s)])[to := PreludeGeneratorObj ?t']"
  have c: "copyPG h from to = Inr ?h'"
    using p ne lt assms(2,3)
    by (simp add: copyPG_def getPreludeGenerator_def getStatementArray_def getSet_def getMap_def
          modifyPreludeGenerator_def alloc_def lookup_def nth_append list_update_append)
  have l: "lookup ?h' to = Some (PreludeGeneratorObj ?t')"
    "lookup ?h' (prelude ?t') = Some (StatementArrayObj (prelude_of s))"
    "lookup ?h' (derivedIds ?t') = Some (SetObj (derivedIds_of s))"
    "lookup ?h' (memoisedRefs ?t') = Some (MapObj (memoisedRefs_of s))"
    using lt by (simp_all add: lookup_Some_iff nth_append)
  have "state_of ?h' to = Some \<lparr> prelude_of = prelude_of s, derivedIds_of = derivedIds_of s,
      memoisedRefs_of = memoisedRefs_of s, uidCounter_of = uidCounter ?t' \<rparr>"
    using l by (rule state_of_intro)
  then have s1: "state_of ?h' to = Some s"
    using p(5) by simp
  have l2: "lookup ?h' from = Some (PreludeGeneratorObj p)"
    "lookup ?h' (prelude p) = Some (StatementArrayObj (prelude_of s))"
    "lookup ?h' (derivedIds p) = Some (SetObj (derivedIds_of s))"
    "lookup ?h' (memoisedRefs p) = Some (MapObj (memoisedRefs_of s))"
    using p ne assms(3) by (simp_all add: lookup_Some_iff nth_append)
  have "state_of ?h' from = Some \<lparr> prelude_of = prelude_of s, derivedIds_of = derivedIds_of s,
      memoisedRefs_of = memoisedRefs_of s, uidCounter_of = uidCounter p \<rparr>"
    using l2 by (rule state_of_intro)
  then have s2: "state_of ?h' from = Some s"
    using p(5) by simp
  have f1: "footprint ?h' to = {to, length h, length h + 1, length h + 2}"
    using l(1) by (simp add: footprint_eq)
  have f2: "footprint ?h' from = footprint h from"
    using l2(1) p(1) by (simp add: footprint_eq)
  have u: "unchanged_outside {to} h ?h'"
    by (simp add: unchanged_outside_def nth_append nth_list_update)
  show ?thesis using c s1 s2 f1 f2 u by simp
qed

lemma restore_effect:
  assumes "state_of h saved = Some s" and "lookup h this = Some (PreludeGeneratorObj t)"
    and "saved \<noteq> this"
  shows "\<exists>h'. restore h this saved = Inr h' \<and>
           state_of h' this = Some s \<and> state_of h' saved = Some s \<and>
           footprint h' saved = footprint h saved \<and> unchanged_outside {this} h h'"
  using copyPG_effect [OF assms] by (auto simp: restore_def)

lemma save_effect:
  assumes "state_of h this = Some s"
  shows "\<exists>h'. save h this = Inr (length h + 3, h') \<and>
           state_of h' (length h + 3) = Some s \<and> state_of h' this = Some s \<and>
           footprint h' this = footprint h this \<and>
           footprint h' (length h + 3) =
             {length h + 3, length h + 4, length h + 5, length h + 6} \<and>
           length h' = length h + 7 \<and> unchanged_outside {} h h'"
proof -
  let ?n = "PreludeGeneratorObj \<lparr> prelude = length h, derivedIds = length h + 1,
              memoisedRefs = length h + 2, uidCounter = 0 \<rparr>"
  let ?h1 = "h @ [StatementArrayObj [], SetObj {}, MapObj Map.empty, ?n]"
  have n: "new_PreludeGenerator h = (length h + 3, ?h1)"
    by (simp add: new_PreludeGenerator_def alloc_def)
  have u1: "unchanged_outside {} h ?h1"
    by (simp add: unchanged_outside_def nth_append)
  have "footprint h this \<inter> {} = {}" by simp
  with assms u1 have s1: "state_of ?h1 this = Some s" and f1: "footprint ?h1 this = footprint h this"
    using state_of_frame by blast+
  have l: "lookup ?h1 (length h + 3) = Some ?n"
    by (simp add: lookup_Some_iff nth_append)
  have "this < length h" using assms by (rule state_of_obtain)
  then have ne: "this \<noteq> length h + 3" by simp
  from copyPG_effect [OF s1 l ne] obtain h' where h':
    "copyPG ?h1 this (length h + 3) = Inr h'"
    "state_of h' (length h + 3) = Some s" "state_of h' this = Some s"
    "footprint h' (length h + 3) =
       {length h + 3, length ?h1, length ?h1 + 1, length ?h1 + 2}"
    "footprint h' this = footprint ?h1 this"
    "length h' = length ?h1 + 3" "unchanged_outside {length h + 3} ?h1 h'"
    by blast
  have sv: "save h this = Inr (length h + 3, h')"
    using n h'(1) by (simp add: save_def)
  have u: "unchanged_outside {} h h'"
    using u1 h'(7) by (rule unchanged_outside_trans) simp
  have f: "footprint h' (length h + 3) = {length h + 3, length h + 4, length h + 5, length h + 6}"
    unfolding h'(4) by auto
  show ?thesis using sv h'(2,3,5,6) f1 f u by simp
qed


lemma unchanged_outside_mono:
  "unchanged_outside A h h' \<Longrightarrow> A \<subseteq> B \<Longrightarrow> unchanged_outside B h h'"
  by (auto simp: unchanged_outside_def)

lemma this_in_footprint: "state_of h this = Some s \<Longrightarrow> this \<in> footprint h this"
  by (auto simp: state_of_Some_iff footprint_eq)

lemma step_GenerateUid:
  assumes "state_of (t_heap t) this = Some s"
  shows "\<exists>t'. step this t GenerateUid = Inr t' \<and>
           state_of (t_heap t') this = Some (s\<lparr>uidCounter_of := number_increment (uidCounter_of s)\<rparr>) \<and>
           t_uids t' = t_uids t @ [''_'' @ base62_encode (uidCounter_of s)] \<and>
           t_refs t' = t_refs t \<and>
           footprint (t_heap t') this = footprint (t_heap t) this \<and>
           unchanged_outside (footprint (t_heap t) this) (t_heap t) (t_heap t')"
proof -
  from generateUid_effect [OF assms] obtain h' where h':
    "generateUid (t_heap t) this = Inr (''_'' @ base62_encode (uidCounter_of s), h')"
    "state_of h' this = Some (s\<lparr>uidCounter_of := number_increment (uidCounter_of s)\<rparr>)"
    "footprint h' this = footprint (t_heap t) this"
    "unchanged_outside {this} (t_heap t) h'"
    by blast
  have "unchanged_outside (footprint (t_heap t) this) (t_heap t) h'"
    using h'(4) this_in_footprint [OF assms] by (auto intro: unchanged_outside_mono)
  with h' show ?thesis by simp
qed

lemma step_AddDerivedId:
  assumes "state_of (t_heap t) this = Some s"
  shows "\<exists>t'. step this t (AddDerivedId i) = Inr t' \<and>
           state_of (t_heap t') this = Some (s\<lparr>derivedIds_of := insert i (derivedIds_of s)\<rparr>) \<and>
           t_uids t' = t_uids t \<and> t_refs t' = t_refs t \<and>
           footprint (t_heap t') this = footprint (t_heap t) this \<and>
           unchanged_outside (footprint (t_heap t) this) (t_heap t) (t_heap t')"
proof -
  from addDerivedId_effect [OF assms, of i] obtain p h' where h':
    "getPreludeGenerator (t_heap t) this = Some p" "add_Set (t_heap t) (derivedIds p) i = Inr h'"
    "state_of h' this = Some (s\<lparr>derivedIds_of := insert i (derivedIds_of s)\<rparr>)"
    "footprint h' this = footprint (t_heap t) this"
    "unchanged_outside (footprint (t_heap t) this) (t_heap t) h'"
    by blast
  then show ?thesis by simp
qed

lemma step_Save:
  assumes "state_of (t_heap t) this = Some s"
  shows "\<exists>t'. step this t Save = Inr t' \<and>
           state_of (t_heap t') this = Some s \<and>
           t_uids t' = t_uids t \<and> t_refs t' = t_refs t \<and>
           footprint (t_heap t') this = footprint (t_heap t) this \<and>
           unchanged_outside (footprint (t_heap t) this) (t_heap t) (t_heap t')"
proof -
  from save_effect [OF assms] obtain h' where h':
    "save (t_heap t) this = Inr (length (t_heap t) + 3, h')"
    "state_of h' this = Some s"
    "footprint h' this = footprint (t_heap t) this"
    "unchanged_outside {} (t_heap t) h'"
    by blast
  have "unchanged_outside (footprint (t_heap t) this) (t_heap t) h'"
    using h'(4) by (auto intro: unchanged_outside_mono)
  with h' show ?thesis by simp
qed

lemma step_MemoiseReference_hit:
  assumes "state_of (t_heap t) this = Some s" and "memoisedRefs_of s key = Some ref"
  shows "step this t (MemoiseReference key) =
           Inr (t\<lparr>t_refs := t_refs t @ [(key, ref, [])]\<rparr>)"
  using assms memoiseReference_hit [OF assms]
  by (simp add: minted_def prelude_at_def)

lemma step_MemoiseReference_miss:
  assumes "state_of (t_heap t) this = Some s" and "memoisedRefs_of s key = None"
  shows "\<exists>t' member. step this t (MemoiseReference key) = Inr t' \<and>
           convertStringToMember key = Inr member \<and>
           state_of (t_heap t') this = Some (s\<lparr>
             prelude_of := prelude_of s @
               [t_variableDeclaration ''var''
                  [(t_identifier (''_'' @ base62_encode (uidCounter_of s)), member)]],
             memoisedRefs_of := (memoisedRefs_of s)
               (key \<mapsto> t_identifier (''_'' @ base62_encode (uidCounter_of s))),
             uidCounter_of := number_increment (uidCounter_of s)\<rparr>) \<and>
           t_uids t' = t_uids t @ [''_'' @ base62_encode (uidCounter_of s)] \<and>
           t_refs t' = t_refs t @
             [(key, t_identifier (''_'' @ base62_encode (uidCounter_of s)),
               [t_variableDeclaration ''var''
                  [(t_identifier (''_'' @ base62_encode (uidCounter_of s)), member)]])] \<and>
           footprint (t_heap t') this = footprint (t_heap t) this \<and>
           unchanged_outside (footprint (t_heap t) this) (t_heap t) (t_heap t')"
proof -
  obtain member where m: "convertStringToMember key = Inr member"
    using convertStringToMember_total by blast
  from memoiseReference_miss [OF assms m] obtain h' where h':
    "memoiseReference (t_heap t) this key =
       Inr (t_identifier (''_'' @ base62_encode (uidCounter_of s)), h')"
    "state_of h' this = Some (s\<lparr>
             prelude_of := prelude_of s @
               [t_variableDeclaration ''var''
                  [(t_identifier (''_'' @ base62_encode (uidCounter_of s)), member)]],
             memoisedRefs_of := (memoisedRefs_of s)
               (key \<mapsto> t_identifier (''_'' @ base62_encode (uidCounter_of s))),
             uidCounter_of := number_increment (uidCounter_of s)\<rparr>)"
    "footprint h' this = footprint (t_heap t) this"
    "unchanged_outside (footprint (t_heap t) this) (t_heap t) h'"
    by blast
  then show ?thesis
    using assms m by (simp add: minted_def prelude_at_def)
qed


lemma step_restore_free:
  assumes "state_of (t_heap t) this = Some s" and "\<not> is_Restore x"
  shows "\<exists>t' s'. step this t x = Inr t' \<and> state_of (t_heap t') this = Some s' \<and>
           footprint (t_heap t') this = footprint (t_heap t) this \<and>
           unchanged_outside (footprint (t_heap t) this) (t_heap t) (t_heap t') \<and>
           (uidCounter_of s' = uidCounter_of s \<and> t_uids t' = t_uids t \<or>
            uidCounter_of s' = number_increment (uidCounter_of s) \<and>
            t_uids t' = t_uids t @ [''_'' @ base62_encode (uidCounter_of s)]) \<and>
           (t_refs t' = t_refs t \<and> prelude_of s' = prelude_of s \<and>
              memoisedRefs_of s' = memoisedRefs_of s \<or>
            (\<exists>k r. memoisedRefs_of s k = Some r \<and> s' = s \<and>
               t_refs t' = t_refs t @ [(k, r, [])]) \<or>
            (\<exists>k r member. memoisedRefs_of s k = None \<and>
               convertStringToMember k = Inr member \<and>
               memoisedRefs_of s' = (memoisedRefs_of s)(k \<mapsto> r) \<and>
               prelude_of s' = prelude_of s @ [t_variableDeclaration ''var'' [(r, member)]] \<and>
               t_refs t' = t_refs t @ [(k, r, [t_variableDeclaration ''var'' [(r, member)]])]))"
proof (cases x)
  case GenerateUid
  from step_GenerateUid [OF assms(1)] obtain t' where
    "step this t GenerateUid = Inr t'"
    "state_of (t_heap t') this = Some (s\<lparr>uidCounter_of := number_increment (uidCounter_of s)\<rparr>)"
    "t_uids t' = t_uids t @ [''_'' @ base62_encode (uidCounter_of s)]"
    "t_refs t' = t_refs t"
    "footprint (t_heap t') this = footprint (t_heap t) this"
    "unchanged_outside (footprint (t_heap t) this) (t_heap t) (t_heap t')"
    by blast
  with GenerateUid show ?thesis by simp
next
  case (MemoiseReference key)
  show ?thesis
  proof (cases "memoisedRefs_of s key")
    case None
    from step_MemoiseReference_miss [OF assms(1) None] obtain t' member where
      "step this t (MemoiseReference key) = Inr t'"
      "convertStringToMember key = Inr member"
      "state_of (t_heap t') this = Some (s\<lparr>
             prelude_of := prelude_of s @
               [t_variableDeclaration ''var''
                  [(t_identifier (''_'' @ base62_encode (uidCounter_of s)), member)]],
             memoisedRefs_of := (memoisedRefs_of s)
               (key \<mapsto> t_identifier (''_'' @ base62_encode (uidCounter_of s))),
             uidCounter_of := number_increment (uidCounter_of s)\<rparr>)"
      "t_uids t' = t_uids t @ [''_'' @ base62_encode (uidCounter_of s)]"
      "t_refs t' = t_refs t @
             [(key, t_identifier (''_'' @ base62_encode (uidCounter_of s)),
               [t_variableDeclaration ''var''
                  [(t_identifier (''_'' @ base62_encode (uidCounter_of s)), member)]])]"
      "footprint (t_heap t') this = footprint (t_heap t) this"
      "unchanged_outside (footprint (t_heap t) this) (t_heap t) (t_heap t')"
      by blast
    with MemoiseReference None show ?thesis by simp
  next
    case (Some ref)
    have "step this t (MemoiseReference key) = Inr (t\<lparr>t_refs := t_refs t @ [(key, ref, [])]\<rparr>)"
      using assms(1) Some by (rule step_MemoiseReference_hit)
    with MemoiseReference Some assms(1) show ?thesis
      by (simp add: unchanged_outside_refl)
  qed
next
  case (AddDerivedId i)
  from step_AddDerivedId [OF assms(1), of i] obtain t' where
    "step this t (AddDerivedId i) = Inr t'"
    "state_of (t_heap t') this = Some (s\<lparr>derivedIds_of := insert i (derivedIds_of s)\<rparr>)"
    "t_uids t' = t_uids t" "t_refs t' = t_refs t"
    "footprint (t_heap t') this = footprint (t_heap t) this"
    "unchanged_outside (footprint (t_heap t) this) (t_heap t) (t_heap t')"
    by blast
  with AddDerivedId show ?thesis by simp
next
  case Save
  from step_Save [OF assms(1)] obtain t' where
    "step this t Save = Inr t'"
    "state_of (t_heap t') this = Some s"
    "t_uids t' = t_uids t" "t_refs t' = t_refs t"
    "footprint (t_heap t') this = footprint (t_heap t) this"
    "unchanged_outside (footprint (t_heap t) this) (t_heap t) (t_heap t')"
    by blast
  with Save show ?thesis by simp
next
  case (Restore i)
  with assms(2) show ?thesis by simp
qed


lemma run_frame:
  assumes "state_of (t_heap t0) this = Some s0" and "\<forall>x \<in> set ops. \<not> is_Restore x"
  shows "\<exists>t s. run this t0 ops = Inr t \<and> state_of (t_heap t) this = Some s \<and>
           footprint (t_heap t) this = footprint (t_heap t0) this \<and>
           unchanged_outside (footprint (t_heap t0) this) (t_heap t0) (t_heap t)"
  using assms
proof (induction ops arbitrary: t0 s0)
  case Nil
  then show ?case by (simp add: unchanged_outside_refl)
next
  case (Cons x xs)
  from Cons.prems have nr: "\<not> is_Restore x" and rest: "\<forall>x \<in> set xs. \<not> is_Restore x"
    by simp_all
  from step_restore_free [OF Cons.prems(1) nr] obtain t1 s1 where 1:
    "step this t0 x = Inr t1" "state_of (t_heap t1) this = Some s1"
    "footprint (t_heap t1) this = footprint (t_heap t0) this"
    "unchanged_outside (footprint (t_heap t0) this) (t_heap t0) (t_heap t1)"
    by blast
  from Cons.IH [OF 1(2) rest] obtain t s where 2:
    "run this t1 xs = Inr t" "state_of (t_heap t) this = Some s"
    "footprint (t_heap t) this = footprint (t_heap t1) this"
    "unchanged_outside (footprint (t_heap t1) this) (t_heap t1) (t_heap t)"
    by blast
  have "unchanged_outside (footprint (t_heap t0) this) (t_heap t0) (t_heap t)"
    using 1(4) 2(4) unfolding 1(3) by (rule unchanged_outside_trans) simp
  with 1 2 show ?case by simp
qed


lemma appended_for_append:
  "appended_for key (log @ [(k, r, st)]) =
     appended_for key log @ (if k = key then st else [])"
  by (simp add: appended_for_def)

lemma appended_for_absent:
  "\<forall>e \<in> set log. fst e \<noteq> key \<Longrightarrow> appended_for key log = []"
  by (induction log) (auto simp: appended_for_def)

lemma step_refs:
  assumes st: "state_of (t_heap t0) this = Some s0" and nr: "\<not> is_Restore x"
    and I0: "\<forall>e \<in> set (t_refs t0). memoisedRefs_of s0 (fst e) = Some (fst (snd e)) \<and>
               (\<forall>b \<in> set (snd (snd e)). \<exists>member. convertStringToMember (fst e) = Inr member \<and>
                  b = t_variableDeclaration ''var'' [(fst (snd e), member)])"
    and A0: "\<forall>k. length (appended_for k (t_refs t0)) \<le> 1"
    and P0: "prelude_of s0 = P @ concat (map (\<lambda>e. snd (snd e)) (t_refs t0))"
  shows "\<exists>t s. step this t0 x = Inr t \<and> state_of (t_heap t) this = Some s \<and>
           (\<forall>e \<in> set (t_refs t). memoisedRefs_of s (fst e) = Some (fst (snd e)) \<and>
               (\<forall>b \<in> set (snd (snd e)). \<exists>member. convertStringToMember (fst e) = Inr member \<and>
                  b = t_variableDeclaration ''var'' [(fst (snd e), member)])) \<and>
           (\<forall>k. length (appended_for k (t_refs t)) \<le> 1) \<and>
           prelude_of s = P @ concat (map (\<lambda>e. snd (snd e)) (t_refs t))"
proof -
  from step_restore_free [OF st nr] obtain t s where 1:
    "step this t0 x = Inr t" "state_of (t_heap t) this = Some s"
    "t_refs t = t_refs t0 \<and> prelude_of s = prelude_of s0 \<and>
       memoisedRefs_of s = memoisedRefs_of s0 \<or>
     (\<exists>k r. memoisedRefs_of s0 k = Some r \<and> s = s0 \<and>
        t_refs t = t_refs t0 @ [(k, r, [])]) \<or>
     (\<exists>k r member. memoisedRefs_of s0 k = None \<and>
        convertStringToMember k = Inr member \<and>
        memoisedRefs_of s = (memoisedRefs_of s0)(k \<mapsto> r) \<and>
        prelude_of s = prelude_of s0 @ [t_variableDeclaration ''var'' [(r, member)]] \<and>
        t_refs t = t_refs t0 @ [(k, r, [t_variableDeclaration ''var'' [(r, member)]])])"
    by blast
  from 1(3) have "(\<forall>e \<in> set (t_refs t). memoisedRefs_of s (fst e) = Some (fst (snd e)) \<and>
               (\<forall>b \<in> set (snd (snd e)). \<exists>member. convertStringToMember (fst e) = Inr member \<and>
                  b = t_variableDeclaration ''var'' [(fst (snd e), member)])) \<and>
           (\<forall>k. length (appended_for k (t_refs t)) \<le> 1) \<and>
           prelude_of s = P @ concat (map (\<lambda>e. snd (snd e)) (t_refs t))"
  proof (elim disjE exE conjE)
    assume "t_refs t = t_refs t0" "prelude_of s = prelude_of s0"
      "memoisedRefs_of s = memoisedRefs_of s0"
    with I0 A0 P0 show ?thesis by simp
  next
    fix k r
    assume "memoisedRefs_of s0 k = Some r" "s = s0" "t_refs t = t_refs t0 @ [(k, r, [])]"
    with I0 A0 P0 show ?thesis by (simp add: appended_for_append)
  next
    fix k r member
    assume a: "memoisedRefs_of s0 k = None" "convertStringToMember k = Inr member"
      "memoisedRefs_of s = (memoisedRefs_of s0)(k \<mapsto> r)"
      "prelude_of s = prelude_of s0 @ [t_variableDeclaration ''var'' [(r, member)]]"
      "t_refs t = t_refs t0 @ [(k, r, [t_variableDeclaration ''var'' [(r, member)]])]"
    have absent: "\<forall>e \<in> set (t_refs t0). fst e \<noteq> k"
      using I0 a(1) by auto
    then have "appended_for k (t_refs t0) = []"
      by (rule appended_for_absent)
    then have A: "\<forall>k'. length (appended_for k' (t_refs t)) \<le> 1"
      using A0 a(5) by (simp add: appended_for_append)
    have I: "\<forall>e \<in> set (t_refs t). memoisedRefs_of s (fst e) = Some (fst (snd e)) \<and>
               (\<forall>b \<in> set (snd (snd e)). \<exists>member. convertStringToMember (fst e) = Inr member \<and>
                  b = t_variableDeclaration ''var'' [(fst (snd e), member)])"
      using I0 absent a(2,3,5) by auto
    have "prelude_of s = P @ concat (map (\<lambda>e. snd (snd e)) (t_refs t))"
      using P0 a(4,5) by simp
    with I A show ?thesis by simp
  qed
  with 1(1,2) show ?thesis by blast
qed

lemma run_refs:
  assumes st: "state_of (t_heap t0) this = Some s0" and nr: "\<forall>x \<in> set ops. \<not> is_Restore x"
    and I0: "\<forall>e \<in> set (t_refs t0). memoisedRefs_of s0 (fst e) = Some (fst (snd e)) \<and>
               (\<forall>b \<in> set (snd (snd e)). \<exists>member. convertStringToMember (fst e) = Inr member \<and>
                  b = t_variableDeclaration ''var'' [(fst (snd e), member)])"
    and A0: "\<forall>k. length (appended_for k (t_refs t0)) \<le> 1"
    and P0: "prelude_of s0 = P @ concat (map (\<lambda>e. snd (snd e)) (t_refs t0))"
  shows "\<exists>t s. run this t0 ops = Inr t \<and> state_of (t_heap t) this = Some s \<and>
           (\<forall>e \<in> set (t_refs t). memoisedRefs_of s (fst e) = Some (fst (snd e)) \<and>
               (\<forall>b \<in> set (snd (snd e)). \<exists>member. convertStringToMember (fst e) = Inr member \<and>
                  b = t_variableDeclaration ''var'' [(fst (snd e), member)])) \<and>
           (\<forall>k. length (appended_for k (t_refs t)) \<le> 1) \<and>
           prelude_of s = P @ concat (map (\<lambda>e. snd (snd e)) (t_refs t))"
  using assms
proof (induction ops arbitrary: t0 s0)
  case Nil
  then show ?case by simp
next
  case (Cons x xs)
  from Cons.prems(2) have nr: "\<not> is_Restore x" and rest: "\<forall>x \<in> set xs. \<not> is_Restore x"
    by simp_all
  from step_refs [OF Cons.prems(1) nr Cons.prems(3,4,5)] obtain t1 s1 where 1:
    "step this t0 x = Inr t1" "state_of (t_heap t1) this = Some s1"
    "\<forall>e \<in> set (t_refs t1). memoisedRefs_of s1 (fst e) = Some (fst (snd e)) \<and>
               (\<forall>b \<in> set (snd (snd e)). \<exists>member. convertStringToMember (fst e) = Inr member \<and>
                  b = t_variableDeclaration ''var'' [(fst (snd e), member)])"
    "\<forall>k. length (appended_for k (t_refs t1)) \<le> 1"
    "prelude_of s1 = P @ concat (map (\<lambda>e. snd (snd e)) (t_refs t1))"
    by blast
  from Cons.IH [OF 1(2) rest 1(3,4,5)] 1(1) show ?case by simp
qed

lemma split_str_no_sep: "sep \<notin> set s \<Longrightarrow> split_str sep s = [s]"
  by (induction s) auto

lemma split_str_append:
  "sep \<notin> set seg \<Longrightarrow> split_str sep (k @ sep # seg) = split_str sep k @ [seg]"
proof (induction k)
  case Nil
  then show ?case by (simp add: split_str_no_sep)
next
  case (Cons c cs)
  then show ?case
    using split_str_not_Nil [of sep cs]
    by (cases "split_str sep cs") auto
qed

lemma convertStringToMember_segment:
  "CHR ''.'' \<notin> set seg \<Longrightarrow> convertStringToMember seg = Inr (t_identifier seg)"
  by (simp add: convertStringToMember_def split_str_no_sep)

lemma convertStringToMember_append:
  assumes "CHR ''.'' \<notin> set seg" and "convertStringToMember k = Inr e"
  shows "convertStringToMember (k @ ''.'' @ seg) = Inr (t_memberExpression e (t_identifier seg))"
proof -
  obtain x xs where x: "split_str CHR ''.'' k = x # xs"
    using split_str_not_Nil [of "CHR ''.''" k] by (cases "split_str CHR ''.'' k") auto
  with assms show ?thesis
    by (auto simp: convertStringToMember_def split_str_append)
qed


lemma example_heap_state:
  "state_of example_heap 4 =
     Some \<lparr> prelude_of = [], derivedIds_of = {}, memoisedRefs_of = Map.empty,
            uidCounter_of = 0 \<rparr>"
  by (simp add: state_of_def getPreludeGenerator_def getStatementArray_def getSet_def
        getMap_def example_heap_def lookup_def)

lemma base62_encode_0: "base62_encode 0 = ''0''"
  by (simp add: base62_encode_def)

lemma base62_encode_1: "base62_encode 1 = ''1''"
proof -
  have "base62_loop (Suc 0) [] = ''1''"
    by (subst base62_loop.simps) (simp add: base62_loop.simps [of 0] base62_chars_def)
  then show ?thesis by (simp add: base62_encode_def)
qed


subsection \<open>The claims about the allocator\<close>


lemma generateUid_repeats_at_limit:
  assumes "state_of h this = Some s" and "uidCounter_of s = 2 ^ 53"
  shows "\<exists>u h1 h2. generateUid h this = Inr (u, h1) \<and> generateUid h1 this = Inr (u, h2)"
proof -
  from generateUid_effect [OF assms(1)] obtain h1 where 1:
    "generateUid h this = Inr (''_'' @ base62_encode (uidCounter_of s), h1)"
    "state_of h1 this = Some (s\<lparr>uidCounter_of := number_increment (uidCounter_of s)\<rparr>)"
    by blast
  have "number_increment (uidCounter_of s) = uidCounter_of s"
    unfolding assms(2) by (rule number_increment_limit)
  with generateUid_effect [OF 1(2)] obtain h2 where
    "generateUid h1 this = Inr (''_'' @ base62_encode (uidCounter_of s), h2)"
    by auto
  with 1(1) show ?thesis by blast
qed



text \<open>
  C5, as stated, fails: \<open>restore\<close> copies the prelude and the map of the snapshot
  back, so a key memoised after the snapshot is forgotten. After \<open>save\<close>,
  \<open>memoiseReference("a")\<close>, \<open>restore\<close> of that snapshot, \<open>generateUid\<close> and
  \<open>memoiseReference("a")\<close> again, on the allocator of the example heap, the two
  requests have appended a binding statement each, and have returned \<open>_0\<close> and
  \<open>_1\<close>.
\<close>

theorem memoiseReference_binds_again_after_restore:
  "map_sum id t_refs
     (run 4 (start example_heap)
        [Save, MemoiseReference ''a'', Restore 0, GenerateUid, MemoiseReference ''a'']) =
   Inr [(''a'', t_identifier ''_0'',
         [t_variableDeclaration ''var'' [(t_identifier ''_0'', t_identifier ''a'')]]),
        (''a'', t_identifier ''_1'',
         [t_variableDeclaration ''var'' [(t_identifier ''_1'', t_identifier ''a'')]])]"
proof -
  let ?s0 = "\<lparr> prelude_of = [], derivedIds_of = {}, memoisedRefs_of = Map.empty,
            uidCounter_of = 0 \<rparr>"
  let ?b0 = "t_variableDeclaration ''var'' [(t_identifier ''_0'', t_identifier ''a'')]"
  let ?b1 = "t_variableDeclaration ''var'' [(t_identifier ''_1'', t_identifier ''a'')]"
  have len: "length example_heap = 7" by (simp add: example_heap_def)
  have a: "convertStringToMember ''a'' = Inr (t_identifier ''a'')"
    by (rule convertStringToMember_segment) simp
  from save_effect [OF example_heap_state] obtain h1 where h1:
    "save example_heap 4 = Inr (10, h1)" "state_of h1 10 = Some ?s0" "state_of h1 4 = Some ?s0"
    "footprint h1 10 = {10, 11, 12, 13}" "footprint h1 4 = footprint example_heap 4"
    unfolding len by auto
  have d: "footprint h1 10 \<inter> footprint h1 4 = {}"
    unfolding h1(4,5) using footprint_less [OF example_heap_state] unfolding len by fastforce
  from memoiseReference_miss [OF h1(3) _ a] obtain h2 where h2:
    "memoiseReference h1 4 ''a'' = Inr (t_identifier ''_0'', h2)"
    "state_of h2 4 = Some (?s0\<lparr>prelude_of := [?b0],
        memoisedRefs_of := [''a'' \<mapsto> t_identifier ''_0''], uidCounter_of := 1\<rparr>)"
    "unchanged_outside (footprint h1 4) h1 h2"
    by (auto simp: base62_encode_0)
  from state_of_frame [OF h1(2) h2(3) d] have s2: "state_of h2 10 = Some ?s0" by simp
  from h2(2) obtain p where p: "lookup h2 4 = Some (PreludeGeneratorObj p)"
    by (auto simp: state_of_Some_iff)
  have ne: "(10::nat) \<noteq> 4" by simp
  from restore_effect [OF s2 p ne] obtain h3 where h3:
    "restore h2 4 10 = Inr h3" "state_of h3 4 = Some ?s0"
    by blast
  from generateUid_effect [OF h3(2)] obtain h4 where h4:
    "generateUid h3 4 = Inr (''_0'', h4)"
    "state_of h4 4 = Some (?s0\<lparr>uidCounter_of := 1\<rparr>)"
    by (auto simp: base62_encode_0)
  have e1: "base62_encode (Suc 0) = ''1''" using base62_encode_1 by simp
  from memoiseReference_miss [OF h4(2) _ a] obtain h5 where h5:
    "memoiseReference h4 4 ''a'' = Inr (t_identifier ''_1'', h5)"
    "state_of h5 4 = Some (?s0\<lparr>prelude_of := [?b1],
        memoisedRefs_of := [''a'' \<mapsto> t_identifier ''_1''], uidCounter_of := 2\<rparr>)"
    by (auto simp: e1)
  show ?thesis
    using h1(1,3) h2(1,2) h3 h4 h5 by (simp add: start_def prelude_at_def minted_def)
qed

text \<open>
  C5, amended. On a live allocator, \<open>memoiseReference(key)\<close> returns the stored node and changes
  nothing when the key is in the map; when it is not, it returns a new identifier, appends
  to the prelude the one statement that binds the identifier to
  \<open>convertStringToMember(key)\<close>, and stores the identifier under the key. Hence, across
  every sequence of calls on the allocator that contains no \<open>restore\<close>, the prelude
  grows by exactly the statements the calls of \<open>memoiseReference\<close> appended; for every
  key these are at most one statement; every such statement binds the returned node to the
  member expression of its key; and any two calls with the same key return the same node.
  \<open>convertStringToMember\<close> splits at the dots and folds to the left: a string without
  a dot is a bare identifier, and a string followed by a dot and a segment without a dot is
  the member access of the segment on the expression of the string.
\<close>

theorem memoiseReference_once:
  assumes "state_of h this = Some s" and "\<forall>x \<in> set ops. \<not> is_Restore x"
  shows "(\<forall>ref. memoisedRefs_of s key = Some ref \<longrightarrow>
            memoiseReference h this key = Inr (ref, h)) \<and>
         (memoisedRefs_of s key = None \<longrightarrow>
            (\<exists>ref member h' s'. memoiseReference h this key = Inr (ref, h') \<and>
               convertStringToMember key = Inr member \<and> state_of h' this = Some s' \<and>
               prelude_of s' = prelude_of s @ [t_variableDeclaration ''var'' [(ref, member)]] \<and>
               memoisedRefs_of s' = (memoisedRefs_of s)(key \<mapsto> ref))) \<and>
         (\<exists>t s'. run this (start h) ops = Inr t \<and> state_of (t_heap t) this = Some s' \<and>
            prelude_of s' = prelude_of s @ concat (map (\<lambda>(k, r, st). st) (t_refs t)) \<and>
            (\<forall>k. length (appended_for k (t_refs t)) \<le> 1) \<and>
            (\<forall>(k, r, st) \<in> set (t_refs t). \<forall>(k', r', st') \<in> set (t_refs t).
               k = k' \<longrightarrow> r = r') \<and>
            (\<forall>(k, r, st) \<in> set (t_refs t). \<forall>b \<in> set st.
               \<exists>member. convertStringToMember k = Inr member \<and>
                 b = t_variableDeclaration ''var'' [(r, member)])) \<and>
         (CHR ''.'' \<notin> set seg \<longrightarrow> convertStringToMember seg = Inr (t_identifier seg)) \<and>
         (\<forall>e. CHR ''.'' \<notin> set seg \<and> convertStringToMember key = Inr e \<longrightarrow>
            convertStringToMember (key @ ''.'' @ seg) =
              Inr (t_memberExpression e (t_identifier seg)))"
proof -
  have hit: "\<forall>ref. memoisedRefs_of s key = Some ref \<longrightarrow>
      memoiseReference h this key = Inr (ref, h)"
    using memoiseReference_hit [OF assms(1)] by blast
  have miss: "memoisedRefs_of s key = None \<longrightarrow>
            (\<exists>ref member h' s'. memoiseReference h this key = Inr (ref, h') \<and>
               convertStringToMember key = Inr member \<and> state_of h' this = Some s' \<and>
               prelude_of s' = prelude_of s @ [t_variableDeclaration ''var'' [(ref, member)]] \<and>
               memoisedRefs_of s' = (memoisedRefs_of s)(key \<mapsto> ref))"
  proof
    assume n: "memoisedRefs_of s key = None"
    obtain member where m: "convertStringToMember key = Inr member"
      using convertStringToMember_total by blast
    let ?ref = "t_identifier (''_'' @ base62_encode (uidCounter_of s))"
    let ?s' = "s\<lparr>prelude_of := prelude_of s @ [t_variableDeclaration ''var'' [(?ref, member)]],
                  memoisedRefs_of := (memoisedRefs_of s)(key \<mapsto> ?ref),
                  uidCounter_of := number_increment (uidCounter_of s)\<rparr>"
    from memoiseReference_miss [OF assms(1) n m] obtain h' where h':
      "memoiseReference h this key = Inr (?ref, h')" "state_of h' this = Some ?s'"
      by blast
    have "memoiseReference h this key = Inr (?ref, h') \<and>
               convertStringToMember key = Inr member \<and> state_of h' this = Some ?s' \<and>
               prelude_of ?s' = prelude_of s @ [t_variableDeclaration ''var'' [(?ref, member)]] \<and>
               memoisedRefs_of ?s' = (memoisedRefs_of s)(key \<mapsto> ?ref)"
      using h' m by simp
    then show "\<exists>ref member h' s'. memoiseReference h this key = Inr (ref, h') \<and>
               convertStringToMember key = Inr member \<and> state_of h' this = Some s' \<and>
               prelude_of s' = prelude_of s @ [t_variableDeclaration ''var'' [(ref, member)]] \<and>
               memoisedRefs_of s' = (memoisedRefs_of s)(key \<mapsto> ref)"
      by (intro exI)
  qed
  have st: "state_of (t_heap (start h)) this = Some s"
    using assms(1) by (simp add: start_def)
  have i0: "\<forall>e \<in> set (t_refs (start h)). memoisedRefs_of s (fst e) = Some (fst (snd e)) \<and>
               (\<forall>b \<in> set (snd (snd e)). \<exists>member. convertStringToMember (fst e) = Inr member \<and>
                  b = t_variableDeclaration ''var'' [(fst (snd e), member)])"
    and a0: "\<forall>k. length (appended_for k (t_refs (start h))) \<le> 1"
    and p0: "prelude_of s = prelude_of s @ concat (map (\<lambda>e. snd (snd e)) (t_refs (start h)))"
    by (simp_all add: start_def appended_for_def)
  from run_refs [OF st assms(2) i0 a0 p0] obtain t s' where t:
    "run this (start h) ops = Inr t" "state_of (t_heap t) this = Some s'"
    "\<forall>e \<in> set (t_refs t). memoisedRefs_of s' (fst e) = Some (fst (snd e)) \<and>
               (\<forall>b \<in> set (snd (snd e)). \<exists>member. convertStringToMember (fst e) = Inr member \<and>
                  b = t_variableDeclaration ''var'' [(fst (snd e), member)])"
    "\<forall>k. length (appended_for k (t_refs t)) \<le> 1"
    "prelude_of s' = prelude_of s @ concat (map (\<lambda>e. snd (snd e)) (t_refs t))"
    by (elim exE conjE)
  have fs: "\<forall>e \<in> set (t_refs t). \<forall>e' \<in> set (t_refs t).
      fst e = fst e' \<longrightarrow> fst (snd e) = fst (snd e')"
  proof (intro ballI impI)
    fix e e'
    assume e: "e \<in> set (t_refs t)" and e': "e' \<in> set (t_refs t)" and k: "fst e = fst e'"
    from bspec [OF t(3) e] have a: "memoisedRefs_of s' (fst e) = Some (fst (snd e))"
      by (rule conjunct1)
    from bspec [OF t(3) e'] have b: "memoisedRefs_of s' (fst e') = Some (fst (snd e'))"
      by (rule conjunct1)
    from a b show "fst (snd e) = fst (snd e')" unfolding k by simp
  qed
  have same: "\<forall>(k, r, st) \<in> set (t_refs t). \<forall>(k', r', st') \<in> set (t_refs t).
      k = k' \<longrightarrow> r = r'"
    unfolding case_prod_beta by (rule fs)
  have fb: "\<forall>e \<in> set (t_refs t). \<forall>b \<in> set (snd (snd e)).
      \<exists>member. convertStringToMember (fst e) = Inr member \<and>
        b = t_variableDeclaration ''var'' [(fst (snd e), member)]"
  proof
    fix e
    assume e: "e \<in> set (t_refs t)"
    from bspec [OF t(3) e]
    show "\<forall>b \<in> set (snd (snd e)).
      \<exists>member. convertStringToMember (fst e) = Inr member \<and>
        b = t_variableDeclaration ''var'' [(fst (snd e), member)]"
      by (rule conjunct2)
  qed
  have bind: "\<forall>(k, r, st) \<in> set (t_refs t). \<forall>b \<in> set st.
               \<exists>member. convertStringToMember k = Inr member \<and>
                 b = t_variableDeclaration ''var'' [(r, member)]"
    unfolding case_prod_beta by (rule fb)
  have pre: "prelude_of s' = prelude_of s @ concat (map (\<lambda>(k, r, st). st) (t_refs t))"
    unfolding case_prod_beta by (rule t(5))
  have run: "\<exists>t s'. run this (start h) ops = Inr t \<and> state_of (t_heap t) this = Some s' \<and>
            prelude_of s' = prelude_of s @ concat (map (\<lambda>(k, r, st). st) (t_refs t)) \<and>
            (\<forall>k. length (appended_for k (t_refs t)) \<le> 1) \<and>
            (\<forall>(k, r, st) \<in> set (t_refs t). \<forall>(k', r', st') \<in> set (t_refs t).
               k = k' \<longrightarrow> r = r') \<and>
            (\<forall>(k, r, st) \<in> set (t_refs t). \<forall>b \<in> set st.
               \<exists>member. convertStringToMember k = Inr member \<and>
                 b = t_variableDeclaration ''var'' [(r, member)])"
    by (intro exI [of _ t] exI [of _ s'] conjI t(1) t(2) pre t(4) same bind)
  have seg: "CHR ''.'' \<notin> set seg \<longrightarrow> convertStringToMember seg = Inr (t_identifier seg)"
    by (simp add: convertStringToMember_segment)
  have app: "\<forall>e. CHR ''.'' \<notin> set seg \<and> convertStringToMember key = Inr e \<longrightarrow>
            convertStringToMember (key @ ''.'' @ seg) =
              Inr (t_memberExpression e (t_identifier seg))"
    using convertStringToMember_append by blast
  show ?thesis
    by (intro conjI hit miss run seg app)
qed


theorem memoiseReference_once_witness:
  "(\<exists>ref h' s'.
      memoiseReference example_heap 4 ''a.b.c'' = Inr (ref, h') \<and>
      state_of h' 4 = Some s' \<and>
      prelude_of s' =
        [t_variableDeclaration ''var''
           [(ref, t_memberExpression
                    (t_memberExpression (t_identifier ''a'') (t_identifier ''b''))
                    (t_identifier ''c''))]] \<and>
      memoisedRefs_of s' ''a.b.c'' = Some ref \<and>
      memoiseReference h' 4 ''a.b.c'' = Inr (ref, h')) \<and>
   (\<exists>t s'. run 4 (start example_heap)
        [MemoiseReference ''a.b.c'', MemoiseReference ''a.b.c'', MemoiseReference ''a.b.c''] =
        Inr t \<and>
      state_of (t_heap t) 4 = Some s' \<and>
      prelude_of s' = concat (map (\<lambda>(k, r, st). st) (t_refs t)) \<and>
      length (appended_for ''a.b.c'' (t_refs t)) \<le> 1) \<and>
   convertStringToMember ''a.b.c'' =
     Inr (t_memberExpression (t_memberExpression (t_identifier ''a'') (t_identifier ''b''))
            (t_identifier ''c''))"
proof -
  let ?s0 = "\<lparr> prelude_of = [], derivedIds_of = {}, memoisedRefs_of = Map.empty,
            uidCounter_of = 0 \<rparr>"
  let ?ops = "[MemoiseReference ''a.b.c'', MemoiseReference ''a.b.c'',
               MemoiseReference ''a.b.c'']"
  have nr: "\<forall>x \<in> set ?ops. \<not> is_Restore x" by simp
  note w = memoiseReference_once [OF example_heap_state nr]
  have a: "convertStringToMember ''a'' = Inr (t_identifier ''a'')"
    using w [of "''a''" "''a''"] by simp
  have ab: "convertStringToMember ''a.b'' =
      Inr (t_memberExpression (t_identifier ''a'') (t_identifier ''b''))"
    using w [of "''a''" "''b''"] a by simp
  have abc: "convertStringToMember ''a.b.c'' =
      Inr (t_memberExpression (t_memberExpression (t_identifier ''a'') (t_identifier ''b''))
             (t_identifier ''c''))"
    using w [of "''a.b''" "''c''"] ab by simp
  from w [of "''a.b.c''" "''c''"] abc obtain ref h' s' where 1:
    "memoiseReference example_heap 4 ''a.b.c'' = Inr (ref, h')"
    "state_of h' 4 = Some s'"
    "prelude_of s' =
        [t_variableDeclaration ''var''
           [(ref, t_memberExpression
                    (t_memberExpression (t_identifier ''a'') (t_identifier ''b''))
                    (t_identifier ''c''))]]"
    "memoisedRefs_of s' = [''a.b.c'' \<mapsto> ref]"
    by auto
  have 2: "memoiseReference h' 4 ''a.b.c'' = Inr (ref, h')"
    using memoiseReference_once [OF 1(2) nr, of "''a.b.c''" "''c''"] 1(4) by simp
  from w [of "''a.b.c''" "''c''"] obtain t s'' where 3:
    "run 4 (start example_heap) ?ops = Inr t" "state_of (t_heap t) 4 = Some s''"
    "prelude_of s'' = concat (map (\<lambda>(k, r, st). st) (t_refs t))"
    "length (appended_for ''a.b.c'' (t_refs t)) \<le> 1"
    by auto
  from 1 2 3 abc show ?thesis by auto
qed

text \<open>
  C6. Take a snapshot of a live allocator with \<open>save\<close>, then make any sequence of calls
  on the allocator that contains no \<open>restore\<close> (they advance the counter, add derived
  identifiers, add memoised references and extend the prelude), then \<open>restore\<close> the
  snapshot. All three steps succeed; the snapshot is a new object; the observed state of
  the snapshot (prelude, derived identifiers, memoised references, counter) is the state
  of the allocator when the snapshot was taken, and still is after the calls and after the
  restore; after the restore the observed state of the allocator is that state again; and
  at each of the three moments the snapshot and its three containers are objects different
  from the allocator and its three containers.
\<close>

theorem save_restore_roundtrip:
  assumes "state_of h this = Some s" and "\<forall>x \<in> set ops. \<not> is_Restore x"
  shows "\<exists>snap h1 t h3.
           save h this = Inr (snap, h1) \<and> run this (start h1) ops = Inr t \<and>
           restore (t_heap t) this snap = Inr h3 \<and>
           lookup h snap = None \<and>
           state_of h1 snap = Some s \<and> state_of (t_heap t) snap = Some s \<and>
           state_of h3 snap = Some s \<and> state_of h3 this = Some s \<and>
           footprint h1 snap \<inter> footprint h1 this = {} \<and>
           footprint (t_heap t) snap \<inter> footprint (t_heap t) this = {} \<and>
           footprint h3 snap \<inter> footprint h3 this = {}"
proof -
  let ?snap = "length h + 3"
  from save_effect [OF assms(1)] obtain h1 where h1:
    "save h this = Inr (?snap, h1)" "state_of h1 ?snap = Some s" "state_of h1 this = Some s"
    "footprint h1 this = footprint h this"
    "footprint h1 ?snap = {length h + 3, length h + 4, length h + 5, length h + 6}"
    "length h1 = length h + 7"
    by blast
  have old: "\<forall>a \<in> footprint h this. a < length h"
    using footprint_less [OF assms(1)] by blast
  have d1: "footprint h1 ?snap \<inter> footprint h1 this = {}"
    unfolding h1(4,5) using old by auto
  have st1: "state_of (t_heap (start h1)) this = Some s"
    using h1(3) by (simp add: start_def)
  from run_frame [OF st1 assms(2)] obtain t s2 where t:
    "run this (start h1) ops = Inr t" "state_of (t_heap t) this = Some s2"
    "footprint (t_heap t) this = footprint h1 this"
    "unchanged_outside (footprint h1 this) h1 (t_heap t)"
    by (auto simp: start_def)
  from state_of_frame [OF h1(2) t(4) d1]
  have s2: "state_of (t_heap t) ?snap = Some s"
    and f2: "footprint (t_heap t) ?snap = footprint h1 ?snap"
    by simp_all
  have d2: "footprint (t_heap t) ?snap \<inter> footprint (t_heap t) this = {}"
    unfolding f2 t(3) by (rule d1)
  from t(2) obtain p where p: "lookup (t_heap t) this = Some (PreludeGeneratorObj p)"
    by (auto simp: state_of_Some_iff)
  have "this < length h" using assms(1) by (rule state_of_obtain)
  then have ne: "?snap \<noteq> this" by simp
  from copyPG_effect [OF s2 p ne] obtain h3 where h3:
    "copyPG (t_heap t) ?snap this = Inr h3" "state_of h3 this = Some s"
    "state_of h3 ?snap = Some s"
    "footprint h3 this =
       {this, length (t_heap t), length (t_heap t) + 1, length (t_heap t) + 2}"
    "footprint h3 ?snap = footprint (t_heap t) ?snap"
    by blast
  have lt: "\<forall>a \<in> footprint (t_heap t) ?snap. a < length (t_heap t)"
    using footprint_less [OF s2] by blast
  have "this \<notin> footprint (t_heap t) ?snap"
    unfolding f2 h1(5) using \<open>this < length h\<close> by simp
  then have d3: "footprint h3 ?snap \<inter> footprint h3 this = {}"
    unfolding h3(4,5) using lt by auto
  have fresh: "lookup h ?snap = None"
    by (simp add: lookup_def)
  have r: "restore (t_heap t) this ?snap = Inr h3"
    using h3(1) by (simp add: restore_def)
  show ?thesis
    by (intro exI [of _ ?snap] exI [of _ h1] exI [of _ t] exI [of _ h3] conjI
          h1(1) t(1) r fresh h1(2) s2 h3(3) h3(2) d1 d2 d3)
qed

theorem save_restore_roundtrip_witness:
  "\<exists>snap h1 t h3.
     save example_heap 4 = Inr (snap, h1) \<and>
     run 4 (start h1)
       [GenerateUid, AddDerivedId (t_identifier ''_0''), MemoiseReference ''a.b''] = Inr t \<and>
     restore (t_heap t) 4 snap = Inr h3 \<and>
     lookup example_heap snap = None \<and>
     state_of h1 snap = Some \<lparr> prelude_of = [], derivedIds_of = {},
        memoisedRefs_of = Map.empty, uidCounter_of = 0 \<rparr> \<and>
     state_of (t_heap t) snap = Some \<lparr> prelude_of = [], derivedIds_of = {},
        memoisedRefs_of = Map.empty, uidCounter_of = 0 \<rparr> \<and>
     state_of h3 snap = Some \<lparr> prelude_of = [], derivedIds_of = {},
        memoisedRefs_of = Map.empty, uidCounter_of = 0 \<rparr> \<and>
     state_of h3 4 = Some \<lparr> prelude_of = [], derivedIds_of = {},
        memoisedRefs_of = Map.empty, uidCounter_of = 0 \<rparr> \<and>
     footprint h1 snap \<inter> footprint h1 4 = {} \<and>
     footprint (t_heap t) snap \<inter> footprint (t_heap t) 4 = {} \<and>
     footprint h3 snap \<inter> footprint h3 4 = {}"
proof -
  have nr: "\<forall>x \<in> set [GenerateUid, AddDerivedId (t_identifier ''_0''),
      MemoiseReference ''a.b'']. \<not> is_Restore x"
    by simp
  show ?thesis
    by (rule save_restore_roundtrip [OF example_heap_state nr])
qed

section \<open>Generator: derive\<close>

lemma getRealm_Some: "getRealm h a = Some r \<longleftrightarrow> lookup h a = Some (RealmObj r)"
  by (cases "lookup h a"; simp add: getRealm_def split: heap_obj.splits)

lemma getArray_Some: "getArray h a = Some xs \<longleftrightarrow> lookup h a = Some (ArrayObj xs)"
  by (cases "lookup h a"; simp add: getArray_def split: heap_obj.splits)

lemma getAbstractValue_Some:
  "getAbstractValue h a = Some v \<longleftrightarrow> lookup h a = Some (AbstractValueObj v)"
  by (cases "lookup h a"; simp add: getAbstractValue_def split: heap_obj.splits)

lemma derive_eq:
  assumes pg: "state_of h (preludeGenerator this) = Some s"
    and rl: "getRealm h (realm this) = Some r" "isPartial r"
    and entry: "instanceof_Function bn \<or> getArray h args_ref = Some []"
    and ty: "typeofString_of (getType tys) = Inr ts"
    and p: "lookup h (preludeGenerator this) = Some (PreludeGeneratorObj p)"
  shows "derive this h tys vals args_ref bn knd =
    (let uid = ''_'' @ base62_encode (uidCounter_of s);
         ident = t_identifier uid;
         h2 = h[preludeGenerator this :=
                  PreludeGeneratorObj (p\<lparr>uidCounter := number_increment (uidCounter p)\<rparr>),
                derivedIds p := SetObj (insert ident (derivedIds_of s))];
         av = AbstractValueObj
                \<lparr> Realm' = realm this, intrinsicName = Some uid, types = tys, values' = vals,
                  buildNode' = FixedNode ident, args = args_ref, kind = knd,
                  isAbstractObjectValue = (getType tys = ObjectValue) \<rparr>;
         this1 = body_push this
                   \<lparr> declaresDerivedId = Some ident, entry_args = args_ref,
                     entry_buildNode = deriveNode ident bn \<rparr>
     in case ts of
          None \<Rightarrow> Inr (length h, this1, h2 @ [av])
        | Some typeofString \<Rightarrow>
            Inr (length h, emitInvariant this1 (length h + 1) (typeofCondition typeofString),
                 h2 @ [av, ArrayObj [AbstractV (length h)]]))"
proof -
  from pg obtain p' where p': "lookup h (preludeGenerator this) = Some (PreludeGeneratorObj p')"
    "lookup h (prelude p') = Some (StatementArrayObj (prelude_of s))"
    "lookup h (derivedIds p') = Some (SetObj (derivedIds_of s))"
    "lookup h (memoisedRefs p') = Some (MapObj (memoisedRefs_of s))"
    "uidCounter p' = uidCounter_of s"
    "prelude p' \<noteq> preludeGenerator this" "derivedIds p' \<noteq> preludeGenerator this"
    "memoisedRefs p' \<noteq> preludeGenerator this"
    "prelude p' \<noteq> derivedIds p'" "prelude p' \<noteq> memoisedRefs p'"
    "derivedIds p' \<noteq> memoisedRefs p'"
    "preludeGenerator this < length h" "prelude p' < length h" "derivedIds p' < length h"
    "memoisedRefs p' < length h"
    by (rule state_of_obtain)
  have pp: "p' = p" using p p'(1) by simp
  have r: "lookup h (realm this) = Some (RealmObj r)"
    using rl(1) by (simp add: getRealm_Some)
  have ne: "realm this \<noteq> preludeGenerator this" "realm this \<noteq> derivedIds p"
    using r p'(1,3) pp by auto
  have rlt: "realm this < length h" using r by (simp add: lookup_Some_iff)
  have nn: "getType tys \<noteq> NullValue" "getType tys \<noteq> UndefinedValue"
    using ty by (auto simp: typeofString_of_def split: if_splits)
  have ok: "(if instanceof_Function bn then Inr True
            else (case getArray h args_ref of
                    None \<Rightarrow> Inl TypeError
                  | Some xs \<Rightarrow> Inr (length xs = 0))) = Inr True"
    using entry by auto
  show ?thesis
    unfolding derive_def ok
    using p' pp r ne rlt nn rl(2) ty
    by (cases ts)
       (simp_all add: generateUid_def getPreludeGenerator_def add_Set_def getSet_def
          createAbstract_def new_AbstractValue_def getRealm_def alloc_def
          modifyAbstractValue_def getAbstractValue_def lookup_def Let_def nth_append
          nth_list_update list_update_append)
qed


lemma derive_effect:
  assumes pg: "state_of h (preludeGenerator this) = Some s"
    and rl: "getRealm h (realm this) = Some r" "isPartial r"
    and entry: "instanceof_Function bn \<or> getArray h args_ref = Some []"
    and ty: "typeofString_of (getType tys) = Inr (Some typeofString)"
  shows "\<exists>h'. derive this h tys vals args_ref bn knd =
             Inr (length h,
                  emitInvariant
                    (body_push this
                       \<lparr> declaresDerivedId =
                           Some (t_identifier (''_'' @ base62_encode (uidCounter_of s))),
                         entry_args = args_ref,
                         entry_buildNode =
                           deriveNode (t_identifier (''_'' @ base62_encode (uidCounter_of s)))
                             bn \<rparr>)
                    (length h + 1) (typeofCondition typeofString),
                  h') \<and>
           state_of h' (preludeGenerator this) =
             Some (s\<lparr>derivedIds_of :=
                       insert (t_identifier (''_'' @ base62_encode (uidCounter_of s)))
                         (derivedIds_of s),
                     uidCounter_of := number_increment (uidCounter_of s)\<rparr>) \<and>
           getRealm h' (realm this) = Some r \<and>
           getAbstractValue h' (length h) =
             Some \<lparr> Realm' = realm this,
                    intrinsicName = Some (''_'' @ base62_encode (uidCounter_of s)),
                    types = tys, values' = vals,
                    buildNode' =
                      FixedNode (t_identifier (''_'' @ base62_encode (uidCounter_of s))),
                    args = args_ref, kind = knd,
                    isAbstractObjectValue = (getType tys = ObjectValue) \<rparr> \<and>
           getArray h' (length h + 1) = Some [AbstractV (length h)] \<and>
           length h' = length h + 2 \<and>
           (\<forall>a xs. getArray h a = Some xs \<longrightarrow> getArray h' a = Some xs) \<and>
           unchanged_outside (footprint h (preludeGenerator this)) h h'"
proof -
  from pg obtain p where p: "lookup h (preludeGenerator this) = Some (PreludeGeneratorObj p)"
    "lookup h (prelude p) = Some (StatementArrayObj (prelude_of s))"
    "lookup h (derivedIds p) = Some (SetObj (derivedIds_of s))"
    "lookup h (memoisedRefs p) = Some (MapObj (memoisedRefs_of s))"
    "uidCounter p = uidCounter_of s"
    "prelude p \<noteq> preludeGenerator this" "derivedIds p \<noteq> preludeGenerator this"
    "memoisedRefs p \<noteq> preludeGenerator this"
    "prelude p \<noteq> derivedIds p" "prelude p \<noteq> memoisedRefs p"
    "derivedIds p \<noteq> memoisedRefs p"
    "preludeGenerator this < length h" "prelude p < length h" "derivedIds p < length h"
    "memoisedRefs p < length h"
    by (rule state_of_obtain)
  let ?uid = "''_'' @ base62_encode (uidCounter_of s)"
  let ?p' = "p\<lparr>uidCounter := number_increment (uidCounter p)\<rparr>"
  let ?ds = "insert (t_identifier ?uid) (derivedIds_of s)"
  let ?h2 = "h[preludeGenerator this := PreludeGeneratorObj ?p',
               derivedIds p := SetObj ?ds]"
  let ?av = "\<lparr> Realm' = realm this, intrinsicName = Some ?uid, types = tys, values' = vals,
                buildNode' = FixedNode (t_identifier ?uid), args = args_ref, kind = knd,
                isAbstractObjectValue = (getType tys = ObjectValue) \<rparr>"
  let ?h' = "?h2 @ [AbstractValueObj ?av, ArrayObj [AbstractV (length h)]]"
  have d: "derive this h tys vals args_ref bn knd =
      Inr (length h,
           emitInvariant
             (body_push this
                \<lparr> declaresDerivedId = Some (t_identifier ?uid), entry_args = args_ref,
                  entry_buildNode = deriveNode (t_identifier ?uid) bn \<rparr>)
             (length h + 1) (typeofCondition typeofString), ?h')"
    using derive_eq [OF pg rl entry ty p(1), of vals knd] by (simp add: Let_def)
  have l: "lookup ?h' (preludeGenerator this) = Some (PreludeGeneratorObj ?p')"
    "lookup ?h' (prelude ?p') = Some (StatementArrayObj (prelude_of s))"
    "lookup ?h' (derivedIds ?p') = Some (SetObj ?ds)"
    "lookup ?h' (memoisedRefs ?p') = Some (MapObj (memoisedRefs_of s))"
    using p by (simp_all add: lookup_Some_iff nth_append)
  have "state_of ?h' (preludeGenerator this) =
      Some \<lparr> prelude_of = prelude_of s, derivedIds_of = ?ds,
             memoisedRefs_of = memoisedRefs_of s, uidCounter_of = uidCounter ?p' \<rparr>"
    using l by (rule state_of_intro)
  then have st: "state_of ?h' (preludeGenerator this) =
      Some (s\<lparr>derivedIds_of := ?ds, uidCounter_of := number_increment (uidCounter_of s)\<rparr>)"
    using p(5) by simp
  have r: "lookup h (realm this) = Some (RealmObj r)"
    using rl(1) by (simp add: getRealm_Some)
  then have "realm this \<noteq> preludeGenerator this" "realm this \<noteq> derivedIds p"
    "realm this < length h"
    using p(1,3) by (auto simp: lookup_Some_iff)
  with r have r': "getRealm ?h' (realm this) = Some r"
    by (simp add: getRealm_Some lookup_Some_iff nth_append)
  have av: "getAbstractValue ?h' (length h) = Some ?av"
    by (simp add: getAbstractValue_Some lookup_Some_iff nth_append)
  have ar: "getArray ?h' (length h + 1) = Some [AbstractV (length h)]"
    by (simp add: getArray_Some lookup_Some_iff nth_append)
  have fr: "\<forall>a xs. getArray h a = Some xs \<longrightarrow> getArray ?h' a = Some xs"
  proof (intro allI impI)
    fix a xs
    assume "getArray h a = Some xs"
    then have a: "lookup h a = Some (ArrayObj xs)" by (simp add: getArray_Some)
    then have "a \<noteq> preludeGenerator this" "a \<noteq> derivedIds p" "a < length h"
      using p(1,3) by (auto simp: lookup_Some_iff)
    with a show "getArray ?h' a = Some xs"
      by (simp add: getArray_Some lookup_Some_iff nth_append)
  qed
  have len: "length ?h' = length h + 2" by simp
  have un: "unchanged_outside (footprint h (preludeGenerator this)) h ?h'"
    using p(1) by (simp add: unchanged_outside_def footprint_eq nth_append nth_list_update)
  show ?thesis
    by (intro exI [of _ ?h'] conjI d st r' av ar len fr un)
qed

lemma derive_singleton:
  assumes pg: "state_of h (preludeGenerator this) = Some s"
    and rl: "getRealm h (realm this) = Some r" "isPartial r"
    and entry: "instanceof_Function bn \<or> getArray h args_ref = Some []"
    and ty: "getType tys = NullValue \<or> getType tys = UndefinedValue"
  shows "derive this h tys vals args_ref bn knd = Inl InvariantViolation"
proof -
  from pg obtain p where p: "lookup h (preludeGenerator this) = Some (PreludeGeneratorObj p)"
    "lookup h (prelude p) = Some (StatementArrayObj (prelude_of s))"
    "lookup h (derivedIds p) = Some (SetObj (derivedIds_of s))"
    "lookup h (memoisedRefs p) = Some (MapObj (memoisedRefs_of s))"
    "uidCounter p = uidCounter_of s"
    "prelude p \<noteq> preludeGenerator this" "derivedIds p \<noteq> preludeGenerator this"
    "memoisedRefs p \<noteq> preludeGenerator this"
    "prelude p \<noteq> derivedIds p" "prelude p \<noteq> memoisedRefs p"
    "derivedIds p \<noteq> memoisedRefs p"
    "preludeGenerator this < length h" "prelude p < length h" "derivedIds p < length h"
    "memoisedRefs p < length h"
    by (rule state_of_obtain)
  have r: "lookup h (realm this) = Some (RealmObj r)"
    using rl(1) by (simp add: getRealm_Some)
  have ne: "realm this \<noteq> preludeGenerator this" "realm this \<noteq> derivedIds p"
    "realm this < length h"
    using r p(1,3) by (auto simp: lookup_Some_iff)
  have ok: "(if instanceof_Function bn then Inr True
            else (case getArray h args_ref of
                    None \<Rightarrow> Inl TypeError
                  | Some xs \<Rightarrow> Inr (length xs = 0))) = Inr True"
    using entry by auto
  show ?thesis
    unfolding derive_def ok
    using p r ne rl(2) ty
    by (auto simp: generateUid_def getPreludeGenerator_def add_Set_def getSet_def
          createAbstract_def new_AbstractValue_def getRealm_def lookup_def Let_def
          nth_list_update)
qed

lemma emitInvariant_typeof:
  "body (emitInvariant g a (typeofCondition ts)) = body g @ [chk] \<Longrightarrow>
   declaresDerivedId chk = None \<and> entry_args chk = a \<and>
   entry_buildNode chk [n] hp =
     (if ts = ''object''
      then Inr (t_ifStatement
             (t_logicalExpression ''||''
                (t_binaryExpression ''!=='' (t_unaryExpression ''typeof'' n) (t_stringLiteral ts))
                (t_binaryExpression ''==='' n t_nullLiteral))
             (t_blockStatement
                [t_throwStatement
                   (t_newExpression (t_identifier ''Error'')
                      [t_stringLiteral ''Prepack model invariant violation''])]), hp)
      else Inr (t_ifStatement
             (t_binaryExpression ''!=='' (t_unaryExpression ''typeof'' n) (t_stringLiteral ts))
             (t_blockStatement
                [t_throwStatement
                   (t_newExpression (t_identifier ''Error'')
                      [t_stringLiteral ''Prepack model invariant violation''])]), hp))"
  by (auto simp: emitInvariant_def body_push_def typeofCondition_def Let_def)

lemma body_emitInvariant:
  "\<exists>chk. body (emitInvariant g a f) = body g @ [chk]"
  by (simp add: emitInvariant_def body_push_def)


lemma derive_typed:
  assumes pg: "state_of h (preludeGenerator this) = Some s"
    and rl: "getRealm h (realm this) = Some r" "isPartial r"
    and entry: "instanceof_Function bn \<or> getArray h args_ref = Some []"
    and ty: "typeofString_of (getType tys) = Inr (Some ts)"
  shows "\<exists>res this' h' av chk.
           derive this h tys vals args_ref bn knd = Inr (res, this', h') \<and>
           body this' = body this @
             [\<lparr> declaresDerivedId =
                   Some (t_identifier (''_'' @ base62_encode (uidCounter_of s))),
                 entry_args = args_ref,
                 entry_buildNode =
                   deriveNode (t_identifier (''_'' @ base62_encode (uidCounter_of s))) bn \<rparr>,
              chk] \<and>
           realm this' = realm this \<and> preludeGenerator this' = preludeGenerator this \<and>
           state_of h' (preludeGenerator this) =
             Some (s\<lparr>derivedIds_of :=
                       insert (t_identifier (''_'' @ base62_encode (uidCounter_of s)))
                         (derivedIds_of s),
                     uidCounter_of := number_increment (uidCounter_of s)\<rparr>) \<and>
           getRealm h' (realm this) = Some r \<and>
           (\<forall>a xs. getArray h a = Some xs \<longrightarrow> getArray h' a = Some xs) \<and>
           unchanged_outside (footprint h (preludeGenerator this)) h h' \<and>
           lookup h res = None \<and> getAbstractValue h' res = Some av \<and>
           buildNode' av = FixedNode (t_identifier (''_'' @ base62_encode (uidCounter_of s))) \<and>
           intrinsicName av = Some (''_'' @ base62_encode (uidCounter_of s)) \<and>
           declaresDerivedId chk = None \<and>
           getArray h' (entry_args chk) = Some [AbstractV res] \<and>
           (\<forall>n hp. entry_buildNode chk [n] hp =
              (if ts = ''object''
               then Inr (t_ifStatement
                      (t_logicalExpression ''||''
                         (t_binaryExpression ''!=='' (t_unaryExpression ''typeof'' n)
                            (t_stringLiteral ts))
                         (t_binaryExpression ''==='' n t_nullLiteral))
                      (t_blockStatement
                  [t_throwStatement
                     (t_newExpression (t_identifier ''Error'')
                        [t_stringLiteral ''Prepack model invariant violation''])]), hp)
               else Inr (t_ifStatement
                      (t_binaryExpression ''!=='' (t_unaryExpression ''typeof'' n)
                         (t_stringLiteral ts))
                      (t_blockStatement
                  [t_throwStatement
                     (t_newExpression (t_identifier ''Error'')
                        [t_stringLiteral ''Prepack model invariant violation''])]), hp)))"
proof -
  let ?ident = "t_identifier (''_'' @ base62_encode (uidCounter_of s))"
  let ?decl = "\<lparr> declaresDerivedId = Some ?ident, entry_args = args_ref,
                 entry_buildNode = deriveNode ?ident bn \<rparr>"
  let ?this' = "emitInvariant (body_push this ?decl) (length h + 1) (typeofCondition ts)"
  let ?av = "\<lparr> Realm' = realm this,
                intrinsicName = Some (''_'' @ base62_encode (uidCounter_of s)),
                types = tys, values' = vals, buildNode' = FixedNode ?ident,
                args = args_ref, kind = knd,
                isAbstractObjectValue = (getType tys = ObjectValue) \<rparr>"
  from derive_effect [OF pg rl entry ty, of vals knd] obtain h' where h':
    "derive this h tys vals args_ref bn knd = Inr (length h, ?this', h')"
    "state_of h' (preludeGenerator this) =
       Some (s\<lparr>derivedIds_of := insert ?ident (derivedIds_of s),
               uidCounter_of := number_increment (uidCounter_of s)\<rparr>)"
    "getRealm h' (realm this) = Some r"
    "getAbstractValue h' (length h) = Some ?av"
    "getArray h' (length h + 1) = Some [AbstractV (length h)]"
    "\<forall>a xs. getArray h a = Some xs \<longrightarrow> getArray h' a = Some xs"
    "unchanged_outside (footprint h (preludeGenerator this)) h h'"
    by (elim exE conjE)
  obtain chk where chk: "body ?this' = body (body_push this ?decl) @ [chk]"
    using body_emitInvariant by blast
  note c = emitInvariant_typeof [OF chk]
  have b: "body ?this' = body this @ [?decl, chk]"
    using chk by (simp add: body_push_def)
  have f: "realm ?this' = realm this" "preludeGenerator ?this' = preludeGenerator this"
    by (simp_all add: emitInvariant_def body_push_def)
  have fresh: "lookup h (length h) = None" by (simp add: lookup_def)
  have a: "getArray h' (entry_args chk) = Some [AbstractV (length h)]"
    using c h'(5) by simp
  have bn: "buildNode' ?av = FixedNode ?ident"
    and nm: "intrinsicName ?av = Some (''_'' @ base62_encode (uidCounter_of s))"
    by simp_all
  have cn: "declaresDerivedId chk = None" using c by simp
  have bd: "\<forall>n hp. entry_buildNode chk [n] hp =
              (if ts = ''object''
               then Inr (t_ifStatement
                      (t_logicalExpression ''||''
                         (t_binaryExpression ''!=='' (t_unaryExpression ''typeof'' n)
                            (t_stringLiteral ts))
                         (t_binaryExpression ''==='' n t_nullLiteral))
                      (t_blockStatement
                  [t_throwStatement
                     (t_newExpression (t_identifier ''Error'')
                        [t_stringLiteral ''Prepack model invariant violation''])]), hp)
               else Inr (t_ifStatement
                      (t_binaryExpression ''!=='' (t_unaryExpression ''typeof'' n)
                         (t_stringLiteral ts))
                      (t_blockStatement
                  [t_throwStatement
                     (t_newExpression (t_identifier ''Error'')
                        [t_stringLiteral ''Prepack model invariant violation''])]), hp))"
    using c by blast
  show ?thesis
    by (intro exI [of _ "length h"] exI [of _ ?this'] exI [of _ h'] exI [of _ ?av]
          exI [of _ chk] conjI h'(1) b f h'(2) h'(3) h'(6) h'(7) fresh h'(4) bn nm cn a bd)
qed

lemma example_generator_facts:
  "state_of example_heap (preludeGenerator example_generator) =
     Some \<lparr> prelude_of = [], derivedIds_of = {}, memoisedRefs_of = Map.empty,
            uidCounter_of = 0 \<rparr>"
  "getRealm example_heap (realm example_generator) = Some example_realm"
  "isPartial example_realm"
  "getArray example_heap 5 = Some []"
  by (simp_all add: example_generator_def example_heap_state example_heap_realm
        example_realm_def)
     (simp add: example_heap_def getArray_def lookup_def)

text \<open>
  C1, as stated, fails in two ways. A call of \<open>derive\<close> with type facts Number, a fixed
  node as recipe and a dependency array that is not empty fails the first invariant of
  \<open>derive\<close>: no identifier is declared and no entry appended. And two calls of
  \<open>derive\<close> declare the same identifier when the allocator is restored between them to
  a snapshot taken before the first: the body then declares \<open>_0\<close> twice.
\<close>

theorem derive_faults_on_fixed_node_and_reuses_after_restore:
  "derive example_generator (example_heap @ [ArrayObj [AbstractV 6]])
     (TypesDomain NumberValue) (elements_domain [NumberValue]) 7
     (FixedNode (t_identifier ''x'')) None = Inl InvariantViolation \<and>
   (case save example_heap 4 of
      Inl e \<Rightarrow> Inl e
    | Inr (snap, h1) \<Rightarrow>
       (case derive example_generator h1 (TypesDomain NumberValue)
               (elements_domain [NumberValue]) 5 (FixedNode (t_identifier ''x'')) None of
          Inl e \<Rightarrow> Inl e
        | Inr (res1, g1, h2) \<Rightarrow>
           (case restore h2 4 snap of
              Inl e \<Rightarrow> Inl e
            | Inr h3 \<Rightarrow>
               (case derive g1 h3 (TypesDomain NumberValue)
                       (elements_domain [NumberValue]) 5 (FixedNode (t_identifier ''x''))
                       None of
                  Inl e \<Rightarrow> Inl e
                | Inr (res2, g2, h4) \<Rightarrow>
                    Inr (List.map_filter declaresDerivedId (body g2)))))) =
   Inr [t_identifier ''_0'', t_identifier ''_0'']"
proof
  show "derive example_generator (example_heap @ [ArrayObj [AbstractV 6]])
     (TypesDomain NumberValue) (elements_domain [NumberValue]) 7
     (FixedNode (t_identifier ''x'')) None = Inl InvariantViolation"
    by (simp add: derive_def getArray_def lookup_def example_heap_def)
next
  let ?s0 = "\<lparr> prelude_of = [], derivedIds_of = {}, memoisedRefs_of = Map.empty,
            uidCounter_of = 0 \<rparr>"
  let ?T = "TypesDomain NumberValue"
  let ?V = "elements_domain [NumberValue]"
  let ?x = "FixedNode (t_identifier ''x'')"
  have len: "length example_heap = 7" by (simp add: example_heap_def)
  have ty: "typeofString_of (getType ?T) = Inr (Some ''number'')"
    by (simp add: typeofString_of_def)
  have g: "preludeGenerator example_generator = 4" "realm example_generator = 0"
    "body example_generator = []"
    by (simp_all add: example_generator_def)
  from save_effect [OF example_heap_state] obtain h1 where h1:
    "save example_heap 4 = Inr (10, h1)" "state_of h1 10 = Some ?s0" "state_of h1 4 = Some ?s0"
    "footprint h1 4 = footprint example_heap 4" "footprint h1 10 = {10, 11, 12, 13}"
    "unchanged_outside {} example_heap h1"
    unfolding len by auto
  have fp: "footprint example_heap 4 = {4, 1, 2, 3}"
    by (simp add: footprint_def getPreludeGenerator_def lookup_def example_heap_def)
  have r1: "getRealm h1 0 = Some example_realm"
    using example_heap_realm h1(6)
    by (auto simp: getRealm_Some intro: unchanged_outside_lookup)
  have a1: "getArray h1 5 = Some []"
    using example_generator_facts(4) h1(6)
    by (auto simp: getArray_Some intro: unchanged_outside_lookup)
  have pg1: "state_of h1 (preludeGenerator example_generator) = Some ?s0"
    and rl1: "getRealm h1 (realm example_generator) = Some example_realm"
    and e1: "instanceof_Function ?x \<or> getArray h1 5 = Some []"
    using h1(3) r1 a1 by (simp_all add: g)
  from derive_typed [OF pg1 rl1 example_generator_facts(3) e1 ty, of ?V None]
  obtain res1 g1 h2 chk1 where 1:
    "derive example_generator h1 ?T ?V 5 ?x None = Inr (res1, g1, h2)"
    "body g1 = [\<lparr> declaresDerivedId = Some (t_identifier ''_0''), entry_args = 5,
                   entry_buildNode = deriveNode (t_identifier ''_0'') ?x \<rparr>, chk1]"
    "realm g1 = 0" "preludeGenerator g1 = 4"
    "state_of h2 4 = Some (?s0\<lparr>derivedIds_of := {t_identifier ''_0''}, uidCounter_of := 1\<rparr>)"
    "getRealm h2 0 = Some example_realm"
    "\<forall>a xs. getArray h1 a = Some xs \<longrightarrow> getArray h2 a = Some xs"
    "unchanged_outside (footprint h1 4) h1 h2"
    "declaresDerivedId chk1 = None"
    by (simp add: g base62_encode_0) blast
  have "footprint h1 10 \<inter> footprint h1 4 = {}"
    unfolding h1(4,5) fp by simp
  with h1(2) 1(8) have s2: "state_of h2 10 = Some ?s0"
    using state_of_frame by blast
  from 1(5) obtain p where p: "lookup h2 4 = Some (PreludeGeneratorObj p)"
    by (auto simp: state_of_Some_iff)
  have ne: "(10::nat) \<noteq> 4" by simp
  from copyPG_effect [OF s2 p ne] obtain h3 where h3:
    "restore h2 4 10 = Inr h3" "state_of h3 4 = Some ?s0" "unchanged_outside {4} h2 h3"
    by (auto simp: restore_def)
  have r3: "getRealm h3 0 = Some example_realm"
    using 1(6) h3(3) by (auto simp: getRealm_Some intro: unchanged_outside_lookup)
  have "getArray h2 5 = Some []" using a1 1(7) by blast
  then have a3: "getArray h3 5 = Some []"
    using h3(3) by (auto simp: getArray_Some intro: unchanged_outside_lookup)
  have pg3: "state_of h3 (preludeGenerator g1) = Some ?s0"
    and rl3: "getRealm h3 (realm g1) = Some example_realm"
    and e3: "instanceof_Function ?x \<or> getArray h3 5 = Some []"
    using h3(2) r3 a3 by (simp_all add: 1(3,4))
  from derive_typed [OF pg3 rl3 example_generator_facts(3) e3 ty, of ?V None]
  obtain res2 g2 h4 chk2 where 2:
    "derive g1 h3 ?T ?V 5 ?x None = Inr (res2, g2, h4)"
    "body g2 = body g1 @
       [\<lparr> declaresDerivedId = Some (t_identifier ''_0''), entry_args = 5,
           entry_buildNode = deriveNode (t_identifier ''_0'') ?x \<rparr>, chk2]"
    "declaresDerivedId chk2 = None"
    by (simp add: base62_encode_0) blast
  show "(case save example_heap 4 of
      Inl e \<Rightarrow> Inl e
    | Inr (snap, h1) \<Rightarrow>
       (case derive example_generator h1 ?T ?V 5 ?x None of
          Inl e \<Rightarrow> Inl e
        | Inr (res1, g1, h2) \<Rightarrow>
           (case restore h2 4 snap of
              Inl e \<Rightarrow> Inl e
            | Inr h3 \<Rightarrow>
               (case derive g1 h3 ?T ?V 5 ?x None of
                  Inl e \<Rightarrow> Inl e
                | Inr (res2, g2, h4) \<Rightarrow>
                    Inr (List.map_filter declaresDerivedId (body g2)))))) =
   Inr [t_identifier ''_0'', t_identifier ''_0'']"
    using h1(1) 1(1,2,9) h3(1) 2 by (simp add: List.map_filter_def)
qed

subsection \<open>Sessions\<close>

lemma declared_append: "declared (xs @ ys) = declared xs @ declared ys"
  by (induction xs) (auto split: option.splits BabelNodeExpression.splits)

lemma state_of_append:
  assumes "state_of h a = Some s"
  shows "state_of (h @ xs) a = Some s \<and> footprint (h @ xs) a = footprint h a"
proof -
  have "unchanged_outside {} h (h @ xs)"
    by (simp add: unchanged_outside_def nth_append)
  with assms show ?thesis by (rule state_of_frame) simp
qed

lemma new_AbstractValue_Inr:
  "new_AbstractValue isObj h ra tys vals as bn knd iname = Inr (a, h') \<Longrightarrow>
   a = length h \<and> (\<exists>v. h' = h @ [AbstractValueObj v])"
  by (auto simp: new_AbstractValue_def alloc_def split: option.splits if_splits)

lemma modifyAbstractValue_Inr:
  "modifyAbstractValue h a f = Inr h' \<Longrightarrow> \<exists>v. h' = h[a := AbstractValueObj v]"
  by (auto simp: modifyAbstractValue_def split: option.splits)

lemma derive_allocator:
  assumes pg: "state_of h (preludeGenerator this) = Some s"
    and d: "derive this h tys vals args_ref bn knd = Inr (res, this', h')"
  shows "state_of h' (preludeGenerator this) =
           Some (s\<lparr>derivedIds_of :=
                     insert (t_identifier (''_'' @ base62_encode (uidCounter_of s)))
                       (derivedIds_of s),
                   uidCounter_of := number_increment (uidCounter_of s)\<rparr>) \<and>
         preludeGenerator this' = preludeGenerator this \<and>
         (\<exists>chks. body this' = body this @
            \<lparr> declaresDerivedId =
                Some (t_identifier (''_'' @ base62_encode (uidCounter_of s))),
              entry_args = args_ref,
              entry_buildNode =
                deriveNode (t_identifier (''_'' @ base62_encode (uidCounter_of s))) bn \<rparr> #
            chks \<and> declared chks = [])"
proof -
  let ?uid = "''_'' @ base62_encode (uidCounter_of s)"
  let ?entry = "\<lparr> declaresDerivedId = Some (t_identifier ?uid), entry_args = args_ref,
              entry_buildNode = deriveNode (t_identifier ?uid) bn \<rparr>"
  from generateUid_effect [OF pg] obtain h1 where g:
    "generateUid h (preludeGenerator this) = Inr (?uid, h1)"
    "state_of h1 (preludeGenerator this) =
       Some (s\<lparr>uidCounter_of := number_increment (uidCounter_of s)\<rparr>)"
    by blast
  from addDerivedId_effect [OF g(2), of "t_identifier ?uid"] obtain p h2 where a:
    "getPreludeGenerator h1 (preludeGenerator this) = Some p"
    "add_Set h1 (derivedIds p) (t_identifier ?uid) = Inr h2"
    "state_of h2 (preludeGenerator this) =
       Some (s\<lparr>uidCounter_of := number_increment (uidCounter_of s),
               derivedIds_of := insert (t_identifier ?uid) (derivedIds_of s)\<rparr>)"
    by auto
  from d g(1) a(1,2) have "\<exists>h3 h4 f.
    createAbstract h2 (realm this) tys vals args_ref (FixedNode (t_identifier ?uid)) knd =
       Inr (res, h3) \<and>
    modifyAbstractValue h3 res f = Inr h4 \<and>
    ((this' = body_push this ?entry \<and> h' = h4) \<or>
     (\<exists>ts. this' = emitInvariant (body_push this ?entry) (length h4) (typeofCondition ts) \<and>
        h' = h4 @ [ArrayObj [AbstractV res]]))"
    by (auto simp: derive_def Let_def alloc_def
          split: sum.splits if_splits option.splits prod.splits)
  then obtain h3 h4 f where c:
    "createAbstract h2 (realm this) tys vals args_ref (FixedNode (t_identifier ?uid)) knd =
       Inr (res, h3)"
    "modifyAbstractValue h3 res f = Inr h4"
    "(this' = body_push this ?entry \<and> h' = h4) \<or>
     (\<exists>ts. this' = emitInvariant (body_push this ?entry) (length h4) (typeofCondition ts) \<and>
        h' = h4 @ [ArrayObj [AbstractV res]])"
    by (elim exE conjE)
  from c(1) obtain v where h3: "res = length h2" "h3 = h2 @ [AbstractValueObj v]"
    unfolding createAbstract_def by (auto dest: new_AbstractValue_Inr)
  from modifyAbstractValue_Inr [OF c(2)] h3 obtain v' where h4:
    "h4 = h2 @ [AbstractValueObj v']"
    by auto
  from c(3) h4 obtain xs where "h' = h2 @ xs" by auto
  with state_of_append [OF a(3)] have st: "state_of h' (preludeGenerator this) =
       Some (s\<lparr>uidCounter_of := number_increment (uidCounter_of s),
               derivedIds_of := insert (t_identifier ?uid) (derivedIds_of s)\<rparr>)"
    by simp
  from c(3) have b: "preludeGenerator this' = preludeGenerator this \<and>
      (\<exists>chks. body this' = body this @ ?entry # chks \<and> declared chks = [])"
    by (auto simp: body_push_def emitInvariant_def)
  from st b show ?thesis by simp
qed

lemma definePropertyNode_Inr:
  "definePropertyNode pg key desc nodes hp = Inr (st, hp') \<Longrightarrow>
   \<exists>ref as. memoiseReference hp pg ''Object.defineProperty'' = Inr (ref, hp') \<and>
     st = t_expressionStatement (t_callExpression ref as)"
  by (auto simp: definePropertyNode_def Let_def
        split: list.splits sum.splits if_splits prod.splits)

lemma rec_step_Replay:
  assumes "rec_step c (Replay key desc nodes) = Inr c'"
  shows "\<exists>t ref as b.
           step (preludeGenerator (recorder c)) (calls c)
             (MemoiseReference ''Object.defineProperty'') = Inr t \<and>
           c' = c\<lparr>calls := t,
                  replayed := replayed c @ [t_expressionStatement (t_callExpression ref as)]\<rparr> \<and>
           t_refs t = t_refs (calls c) @ [(''Object.defineProperty'', ref, b)]"
proof -
  from assms obtain st h where 1:
    "definePropertyNode (preludeGenerator (recorder c)) key desc nodes (t_heap (calls c)) =
       Inr (st, h)"
    by (auto split: sum.splits)
  from definePropertyNode_Inr [OF 1] obtain ref as where 2:
    "memoiseReference (t_heap (calls c)) (preludeGenerator (recorder c))
       ''Object.defineProperty'' = Inr (ref, h)"
    "st = t_expressionStatement (t_callExpression ref as)"
    by blast
  from assms 1 2 show ?thesis by auto
qed

lemma rec_step_effect:
  assumes st: "state_of (t_heap (calls c)) (preludeGenerator (recorder c)) = Some s"
    and nr: "\<not> restores x" and ok: "rec_step c x = Inr c'"
  shows "\<exists>s'. state_of (t_heap (calls c')) (preludeGenerator (recorder c')) = Some s' \<and>
           preludeGenerator (recorder c') = preludeGenerator (recorder c) \<and>
           (uidCounter_of s' = uidCounter_of s \<and> t_uids (calls c') = t_uids (calls c) \<or>
            uidCounter_of s' = number_increment (uidCounter_of s) \<and>
            t_uids (calls c') =
              t_uids (calls c) @ [''_'' @ base62_encode (uidCounter_of s)]) \<and>
           (\<exists>new. body (recorder c') = body (recorder c) @ new \<and>
              set (declared new) \<subseteq> set (t_uids (calls c')))"
proof (cases x)
  case (Call y)
  with nr have ny: "\<not> is_Restore y" by simp
  from step_restore_free [OF st ny] obtain t s' where 1:
    "step (preludeGenerator (recorder c)) (calls c) y = Inr t"
    "state_of (t_heap t) (preludeGenerator (recorder c)) = Some s'"
    "uidCounter_of s' = uidCounter_of s \<and> t_uids t = t_uids (calls c) \<or>
     uidCounter_of s' = number_increment (uidCounter_of s) \<and>
     t_uids t = t_uids (calls c) @ [''_'' @ base62_encode (uidCounter_of s)]"
    by blast
  from ok Call 1(1) have c': "c' = c\<lparr>calls := t\<rparr>" by simp
  have "\<exists>new. body (recorder c') = body (recorder c) @ new \<and>
      set (declared new) \<subseteq> set (t_uids (calls c'))"
    unfolding c' by (intro exI [of _ "[]"]) simp
  with 1(2,3) show ?thesis unfolding c' by (intro exI [of _ s']) simp
next
  case (Derive tys vals args_ref bn knd)
  let ?uid = "''_'' @ base62_encode (uidCounter_of s)"
  from ok Derive obtain res g h where d:
    "derive (recorder c) (t_heap (calls c)) tys vals args_ref bn knd = Inr (res, g, h)"
    "c' = c\<lparr>recorder := g,
                 calls := (calls c)\<lparr>t_heap := h,
                   t_uids := t_uids (calls c) @
                     declared (drop (length (body (recorder c))) (body g))\<rparr>\<rparr>"
    by (auto split: sum.splits)
  from derive_allocator [OF st d(1)] obtain chks where a:
    "state_of h (preludeGenerator (recorder c)) =
       Some (s\<lparr>derivedIds_of := insert (t_identifier ?uid) (derivedIds_of s),
               uidCounter_of := number_increment (uidCounter_of s)\<rparr>)"
    "preludeGenerator g = preludeGenerator (recorder c)"
    "body g = body (recorder c) @
       \<lparr> declaresDerivedId = Some (t_identifier ?uid), entry_args = args_ref,
         entry_buildNode = deriveNode (t_identifier ?uid) bn \<rparr> # chks"
    "declared chks = []"
    by (elim exE conjE)
  have u: "declared (drop (length (body (recorder c))) (body g)) = [?uid]"
    unfolding a(3) using a(4) by simp
  have n: "\<exists>new. body (recorder c') = body (recorder c) @ new \<and>
      set (declared new) \<subseteq> set (t_uids (calls c'))"
    unfolding d(2) u
    by (intro exI [of _ "\<lparr> declaresDerivedId = Some (t_identifier ?uid),
         entry_args = args_ref,
         entry_buildNode = deriveNode (t_identifier ?uid) bn \<rparr> # chks"])
       (simp add: a(3,4))
  show ?thesis
    by (intro exI [of _ "s\<lparr>derivedIds_of := insert (t_identifier ?uid) (derivedIds_of s),
               uidCounter_of := number_increment (uidCounter_of s)\<rparr>"] conjI n)
       (simp_all add: d(2) u a(1,2))
next
  case (Replay key desc nodes)
  from rec_step_Replay [OF ok [unfolded Replay]] obtain t ref as where r:
    "step (preludeGenerator (recorder c)) (calls c)
       (MemoiseReference ''Object.defineProperty'') = Inr t"
    "c' = c\<lparr>calls := t,
           replayed := replayed c @ [t_expressionStatement (t_callExpression ref as)]\<rparr>"
    by blast
  have ny: "\<not> is_Restore (MemoiseReference ''Object.defineProperty'')" by simp
  from step_restore_free [OF st ny] r(1) obtain s' where 1:
    "state_of (t_heap t) (preludeGenerator (recorder c)) = Some s'"
    "uidCounter_of s' = uidCounter_of s \<and> t_uids t = t_uids (calls c) \<or>
     uidCounter_of s' = number_increment (uidCounter_of s) \<and>
     t_uids t = t_uids (calls c) @ [''_'' @ base62_encode (uidCounter_of s)]"
    by auto
  have "\<exists>new. body (recorder c') = body (recorder c) @ new \<and>
      set (declared new) \<subseteq> set (t_uids (calls c'))"
    unfolding r(2) by (intro exI [of _ "[]"]) simp
  with 1 show ?thesis unfolding r(2) by (intro exI [of _ s']) simp
qed

lemma rec_run_counter:
  assumes "state_of (t_heap (calls c0)) (preludeGenerator (recorder c0)) = Some s0"
    and "\<forall>x \<in> set ops. \<not> restores x"
    and "uidCounter_of s0 + length ops \<le> 2 ^ 53"
    and "rec_run c0 ops = Inr c"
  shows "\<exists>s new. state_of (t_heap (calls c)) (preludeGenerator (recorder c)) = Some s \<and>
           preludeGenerator (recorder c) = preludeGenerator (recorder c0) \<and>
           uidCounter_of s0 \<le> uidCounter_of s \<and>
           uidCounter_of s \<le> uidCounter_of s0 + length ops \<and>
           t_uids (calls c) = t_uids (calls c0) @
             map (\<lambda>k. ''_'' @ base62_encode k) [uidCounter_of s0 ..< uidCounter_of s] \<and>
           body (recorder c) = body (recorder c0) @ new \<and>
           set (declared new) \<subseteq> set (t_uids (calls c))"
  using assms
proof (induction ops arbitrary: c0 s0)
  case Nil
  then show ?case by (intro exI [of _ s0] exI [of _ "[]"]) simp
next
  case (Cons x xs)
  from Cons.prems have nr: "\<not> restores x" and rest: "\<forall>x \<in> set xs. \<not> restores x"
    by simp_all
  from Cons.prems(3) have "uidCounter_of s0 < 2 ^ 53" by simp
  then have ex: "number_increment (uidCounter_of s0) = uidCounter_of s0 + 1"
    by (rule number_increment_exact)
  from Cons.prems(4) obtain c1 where s1: "rec_step c0 x = Inr c1" "rec_run c1 xs = Inr c"
    by (auto split: sum.splits)
  from rec_step_effect [OF Cons.prems(1) nr s1(1)] obtain s1 new1 where 1:
    "state_of (t_heap (calls c1)) (preludeGenerator (recorder c1)) = Some s1"
    "preludeGenerator (recorder c1) = preludeGenerator (recorder c0)"
    "uidCounter_of s1 = uidCounter_of s0 \<and> t_uids (calls c1) = t_uids (calls c0) \<or>
     uidCounter_of s1 = uidCounter_of s0 + 1 \<and>
     t_uids (calls c1) = t_uids (calls c0) @ [''_'' @ base62_encode (uidCounter_of s0)]"
    "body (recorder c1) = body (recorder c0) @ new1"
    "set (declared new1) \<subseteq> set (t_uids (calls c1))"
    unfolding ex by (elim exE conjE)
  from 1(3) Cons.prems(3) have b: "uidCounter_of s1 + length xs \<le> 2 ^ 53" by auto
  from Cons.IH [OF 1(1) rest b s1(2)] obtain s new where 2:
    "state_of (t_heap (calls c)) (preludeGenerator (recorder c)) = Some s"
    "preludeGenerator (recorder c) = preludeGenerator (recorder c1)"
    "uidCounter_of s1 \<le> uidCounter_of s"
    "uidCounter_of s \<le> uidCounter_of s1 + length xs"
    "t_uids (calls c) = t_uids (calls c1) @
       map (\<lambda>k. ''_'' @ base62_encode k) [uidCounter_of s1 ..< uidCounter_of s]"
    "body (recorder c) = body (recorder c1) @ new"
    "set (declared new) \<subseteq> set (t_uids (calls c))"
    by (elim exE conjE)
  have bd: "body (recorder c) = body (recorder c0) @ (new1 @ new)"
    using 1(4) 2(6) by simp
  have dc: "set (declared (new1 @ new)) \<subseteq> set (t_uids (calls c))"
    using 1(5) 2(5,7) by (auto simp: declared_append)
  have pg: "preludeGenerator (recorder c) = preludeGenerator (recorder c0)"
    using 1(2) 2(2) by simp
  from 1(3) have cu: "uidCounter_of s0 \<le> uidCounter_of s \<and>
      uidCounter_of s \<le> uidCounter_of s0 + length (x # xs) \<and>
      t_uids (calls c) = t_uids (calls c0) @
        map (\<lambda>k. ''_'' @ base62_encode k) [uidCounter_of s0 ..< uidCounter_of s]"
  proof
    assume "uidCounter_of s1 = uidCounter_of s0 \<and> t_uids (calls c1) = t_uids (calls c0)"
    with 2(3,4,5) show ?thesis by simp
  next
    assume a: "uidCounter_of s1 = uidCounter_of s0 + 1 \<and>
      t_uids (calls c1) = t_uids (calls c0) @ [''_'' @ base62_encode (uidCounter_of s0)]"
    then have "[uidCounter_of s0 ..< uidCounter_of s] =
        uidCounter_of s0 # [uidCounter_of s1 ..< uidCounter_of s]"
      using 2(3) by (simp add: upt_conv_Cons)
    with 2(3,4,5) a show ?thesis by simp
  qed
  show ?case
    using 2(1) pg cu bd dc by (intro exI [of _ s] exI [of _ "new1 @ new"]) simp
qed

lemma step_refs_mono: "step this t x = Inr t' \<Longrightarrow> \<exists>new. t_refs t' = t_refs t @ new"
  by (cases x) (auto split: sum.splits option.splits if_splits prod.splits)

lemma rec_step_refs:
  assumes st: "state_of (t_heap (calls c)) (preludeGenerator (recorder c)) = Some s"
    and nr: "\<not> restores x" and ok: "rec_step c x = Inr c'"
    and I0: "\<forall>e \<in> set (t_refs (calls c)). memoisedRefs_of s (fst e) = Some (fst (snd e)) \<and>
               (\<forall>b \<in> set (snd (snd e)). \<exists>member. convertStringToMember (fst e) = Inr member \<and>
                  b = t_variableDeclaration ''var'' [(fst (snd e), member)])"
    and A0: "\<forall>k. length (appended_for k (t_refs (calls c))) \<le> 1"
    and P0: "prelude_of s = P @ concat (map (\<lambda>e. snd (snd e)) (t_refs (calls c)))"
    and O0: "\<forall>st \<in> set (replayed c). \<exists>r as b.
               st = t_expressionStatement (t_callExpression r as) \<and>
               (''Object.defineProperty'', r, b) \<in> set (t_refs (calls c))"
  shows "\<exists>s'. state_of (t_heap (calls c')) (preludeGenerator (recorder c')) = Some s' \<and>
           (\<forall>e \<in> set (t_refs (calls c')). memoisedRefs_of s' (fst e) = Some (fst (snd e)) \<and>
               (\<forall>b \<in> set (snd (snd e)). \<exists>member. convertStringToMember (fst e) = Inr member \<and>
                  b = t_variableDeclaration ''var'' [(fst (snd e), member)])) \<and>
           (\<forall>k. length (appended_for k (t_refs (calls c'))) \<le> 1) \<and>
           prelude_of s' = P @ concat (map (\<lambda>e. snd (snd e)) (t_refs (calls c'))) \<and>
           (\<forall>st \<in> set (replayed c'). \<exists>r as b.
               st = t_expressionStatement (t_callExpression r as) \<and>
               (''Object.defineProperty'', r, b) \<in> set (t_refs (calls c')))"
proof (cases x)
  case (Call y)
  with nr have ny: "\<not> is_Restore y" by simp
  from step_refs [OF st ny I0 A0 P0] obtain t s' where 1:
    "step (preludeGenerator (recorder c)) (calls c) y = Inr t"
    "state_of (t_heap t) (preludeGenerator (recorder c)) = Some s'"
    "\<forall>e \<in> set (t_refs t). memoisedRefs_of s' (fst e) = Some (fst (snd e)) \<and>
               (\<forall>b \<in> set (snd (snd e)). \<exists>member. convertStringToMember (fst e) = Inr member \<and>
                  b = t_variableDeclaration ''var'' [(fst (snd e), member)])"
    "\<forall>k. length (appended_for k (t_refs t)) \<le> 1"
    "prelude_of s' = P @ concat (map (\<lambda>e. snd (snd e)) (t_refs t))"
    by (elim exE conjE)
  from ok Call 1(1) have c': "c' = c\<lparr>calls := t\<rparr>" by simp
  from step_refs_mono [OF 1(1)] obtain new where m: "t_refs t = t_refs (calls c) @ new" ..
  have O: "\<forall>st \<in> set (replayed c'). \<exists>r as b.
               st = t_expressionStatement (t_callExpression r as) \<and>
               (''Object.defineProperty'', r, b) \<in> set (t_refs (calls c'))"
  proof
    fix st assume "st \<in> set (replayed c')"
    then have "st \<in> set (replayed c)" by (simp add: c')
    with O0 obtain r as b where "st = t_expressionStatement (t_callExpression r as)"
      "(''Object.defineProperty'', r, b) \<in> set (t_refs (calls c))"
      by blast
    then show "\<exists>r as b. st = t_expressionStatement (t_callExpression r as) \<and>
               (''Object.defineProperty'', r, b) \<in> set (t_refs (calls c'))"
      by (intro exI [of _ r] exI [of _ as] exI [of _ b]) (simp add: c' m)
  qed
  have s: "state_of (t_heap (calls c')) (preludeGenerator (recorder c')) = Some s'"
    using 1(2) by (simp add: c')
  have I: "\<forall>e \<in> set (t_refs (calls c')). memoisedRefs_of s' (fst e) = Some (fst (snd e)) \<and>
               (\<forall>b \<in> set (snd (snd e)). \<exists>member. convertStringToMember (fst e) = Inr member \<and>
                  b = t_variableDeclaration ''var'' [(fst (snd e), member)])"
    using 1(3) by (simp add: c')
  have A: "\<forall>k. length (appended_for k (t_refs (calls c'))) \<le> 1"
    using 1(4) by (simp add: c')
  have P: "prelude_of s' = P @ concat (map (\<lambda>e. snd (snd e)) (t_refs (calls c')))"
    using 1(5) by (simp add: c')
  show ?thesis by (intro exI [of _ s'] conjI s I A P O)
next
  case (Derive tys vals args_ref bn knd)
  let ?uid = "''_'' @ base62_encode (uidCounter_of s)"
  let ?s' = "s\<lparr>derivedIds_of := insert (t_identifier ?uid) (derivedIds_of s),
               uidCounter_of := number_increment (uidCounter_of s)\<rparr>"
  from ok Derive obtain res g h where d:
    "derive (recorder c) (t_heap (calls c)) tys vals args_ref bn knd = Inr (res, g, h)"
    "c' = c\<lparr>recorder := g,
                 calls := (calls c)\<lparr>t_heap := h,
                   t_uids := t_uids (calls c) @
                     declared (drop (length (body (recorder c))) (body g))\<rparr>\<rparr>"
    by (auto split: sum.splits)
  from derive_allocator [OF st d(1)] have a:
    "state_of h (preludeGenerator (recorder c)) = Some ?s'"
    "preludeGenerator g = preludeGenerator (recorder c)"
    by simp_all
  have r: "t_refs (calls c') = t_refs (calls c)" "replayed c' = replayed c"
    by (simp_all add: d(2))
  have s: "state_of (t_heap (calls c')) (preludeGenerator (recorder c')) = Some ?s'"
    using a by (simp add: d(2))
  have I: "\<forall>e \<in> set (t_refs (calls c')). memoisedRefs_of ?s' (fst e) = Some (fst (snd e)) \<and>
               (\<forall>b \<in> set (snd (snd e)). \<exists>member. convertStringToMember (fst e) = Inr member \<and>
                  b = t_variableDeclaration ''var'' [(fst (snd e), member)])"
    unfolding r using I0 by simp
  have A: "\<forall>k. length (appended_for k (t_refs (calls c'))) \<le> 1"
    unfolding r by (rule A0)
  have P: "prelude_of ?s' = P @ concat (map (\<lambda>e. snd (snd e)) (t_refs (calls c')))"
    unfolding r using P0 by simp
  have O: "\<forall>st \<in> set (replayed c'). \<exists>r as b.
               st = t_expressionStatement (t_callExpression r as) \<and>
               (''Object.defineProperty'', r, b) \<in> set (t_refs (calls c'))"
    unfolding r by (rule O0)
  show ?thesis by (intro exI [of _ ?s'] conjI s I A P O)
next
  case (Replay key desc nodes)
  from rec_step_Replay [OF ok [unfolded Replay]] obtain t ref as b where r:
    "step (preludeGenerator (recorder c)) (calls c)
       (MemoiseReference ''Object.defineProperty'') = Inr t"
    "c' = c\<lparr>calls := t,
           replayed := replayed c @ [t_expressionStatement (t_callExpression ref as)]\<rparr>"
    "t_refs t = t_refs (calls c) @ [(''Object.defineProperty'', ref, b)]"
    by (elim exE conjE)
  have ny: "\<not> is_Restore (MemoiseReference ''Object.defineProperty'')" by simp
  from step_refs [OF st ny I0 A0 P0] obtain t1 s' where 1:
    "step (preludeGenerator (recorder c)) (calls c)
       (MemoiseReference ''Object.defineProperty'') = Inr t1"
    "state_of (t_heap t1) (preludeGenerator (recorder c)) = Some s'"
    "\<forall>e \<in> set (t_refs t1). memoisedRefs_of s' (fst e) = Some (fst (snd e)) \<and>
               (\<forall>b \<in> set (snd (snd e)). \<exists>member. convertStringToMember (fst e) = Inr member \<and>
                  b = t_variableDeclaration ''var'' [(fst (snd e), member)])"
    "\<forall>k. length (appended_for k (t_refs t1)) \<le> 1"
    "prelude_of s' = P @ concat (map (\<lambda>e. snd (snd e)) (t_refs t1))"
    by (elim exE conjE)
  from r(1) 1(1) have tt: "t1 = t" by simp
  have O: "\<forall>st \<in> set (replayed c'). \<exists>r as b.
               st = t_expressionStatement (t_callExpression r as) \<and>
               (''Object.defineProperty'', r, b) \<in> set (t_refs (calls c'))"
  proof
    fix st assume "st \<in> set (replayed c')"
    then consider "st \<in> set (replayed c)" | "st = t_expressionStatement (t_callExpression ref as)"
      by (auto simp: r(2))
    then show "\<exists>r as b. st = t_expressionStatement (t_callExpression r as) \<and>
               (''Object.defineProperty'', r, b) \<in> set (t_refs (calls c'))"
    proof cases
      case 1
      with O0 obtain r' as' b' where "st = t_expressionStatement (t_callExpression r' as')"
        "(''Object.defineProperty'', r', b') \<in> set (t_refs (calls c))"
        by blast
      then show ?thesis
        by (intro exI [of _ r'] exI [of _ as'] exI [of _ b']) (simp add: r(2,3))
    next
      case 2
      then show ?thesis
        by (intro exI [of _ ref] exI [of _ as] exI [of _ b]) (simp add: r(2,3))
    qed
  qed
  have s: "state_of (t_heap (calls c')) (preludeGenerator (recorder c')) = Some s'"
    using 1(2) by (simp add: r(2) tt)
  have I: "\<forall>e \<in> set (t_refs (calls c')). memoisedRefs_of s' (fst e) = Some (fst (snd e)) \<and>
               (\<forall>b \<in> set (snd (snd e)). \<exists>member. convertStringToMember (fst e) = Inr member \<and>
                  b = t_variableDeclaration ''var'' [(fst (snd e), member)])"
    using 1(3) by (simp add: r(2) tt)
  have A: "\<forall>k. length (appended_for k (t_refs (calls c'))) \<le> 1"
    using 1(4) by (simp add: r(2) tt)
  have P: "prelude_of s' = P @ concat (map (\<lambda>e. snd (snd e)) (t_refs (calls c')))"
    using 1(5) by (simp add: r(2) tt)
  show ?thesis by (intro exI [of _ s'] conjI s I A P O)
qed

lemma rec_run_refs:
  assumes "state_of (t_heap (calls c0)) (preludeGenerator (recorder c0)) = Some s0"
    and "\<forall>x \<in> set ops. \<not> restores x" and "rec_run c0 ops = Inr c"
    and "\<forall>e \<in> set (t_refs (calls c0)). memoisedRefs_of s0 (fst e) = Some (fst (snd e)) \<and>
               (\<forall>b \<in> set (snd (snd e)). \<exists>member. convertStringToMember (fst e) = Inr member \<and>
                  b = t_variableDeclaration ''var'' [(fst (snd e), member)])"
    and "\<forall>k. length (appended_for k (t_refs (calls c0))) \<le> 1"
    and "prelude_of s0 = P @ concat (map (\<lambda>e. snd (snd e)) (t_refs (calls c0)))"
    and "\<forall>st \<in> set (replayed c0). \<exists>r as b.
               st = t_expressionStatement (t_callExpression r as) \<and>
               (''Object.defineProperty'', r, b) \<in> set (t_refs (calls c0))"
  shows "\<exists>s. state_of (t_heap (calls c)) (preludeGenerator (recorder c)) = Some s \<and>
           (\<forall>e \<in> set (t_refs (calls c)). memoisedRefs_of s (fst e) = Some (fst (snd e)) \<and>
               (\<forall>b \<in> set (snd (snd e)). \<exists>member. convertStringToMember (fst e) = Inr member \<and>
                  b = t_variableDeclaration ''var'' [(fst (snd e), member)])) \<and>
           (\<forall>k. length (appended_for k (t_refs (calls c))) \<le> 1) \<and>
           prelude_of s = P @ concat (map (\<lambda>e. snd (snd e)) (t_refs (calls c))) \<and>
           (\<forall>st \<in> set (replayed c). \<exists>r as b.
               st = t_expressionStatement (t_callExpression r as) \<and>
               (''Object.defineProperty'', r, b) \<in> set (t_refs (calls c)))"
  using assms
proof (induction ops arbitrary: c0 s0)
  case Nil
  from Nil.prems(3) have e: "c = c0" by simp
  show ?case
    unfolding e by (intro exI [of _ s0] conjI Nil.prems(1,4,5,6,7))
next
  case (Cons x xs)
  from Cons.prems(2) have nr: "\<not> restores x" and rest: "\<forall>x \<in> set xs. \<not> restores x"
    by simp_all
  from Cons.prems(3) obtain c1 where s1: "rec_step c0 x = Inr c1" "rec_run c1 xs = Inr c"
    by (auto split: sum.splits)
  from rec_step_refs [OF Cons.prems(1) nr s1(1) Cons.prems(4,5,6,7)] obtain s1' where 1:
    "state_of (t_heap (calls c1)) (preludeGenerator (recorder c1)) = Some s1'"
    "\<forall>e \<in> set (t_refs (calls c1)). memoisedRefs_of s1' (fst e) = Some (fst (snd e)) \<and>
               (\<forall>b \<in> set (snd (snd e)). \<exists>member. convertStringToMember (fst e) = Inr member \<and>
                  b = t_variableDeclaration ''var'' [(fst (snd e), member)])"
    "\<forall>k. length (appended_for k (t_refs (calls c1))) \<le> 1"
    "prelude_of s1' = P @ concat (map (\<lambda>e. snd (snd e)) (t_refs (calls c1)))"
    "\<forall>st \<in> set (replayed c1). \<exists>r as b.
               st = t_expressionStatement (t_callExpression r as) \<and>
               (''Object.defineProperty'', r, b) \<in> set (t_refs (calls c1))"
    by (elim exE conjE)
  show ?case by (rule Cons.IH [OF 1(1) rest s1(2) 1(2,3,4,5)])
qed

lemma derive_call:
  assumes "state_of h (preludeGenerator this) = Some s"
    and "getRealm h (realm this) = Some r" and "isPartial r"
    and "instanceof_Function bn \<or> getArray h args_ref = Some []"
  shows
    "(getType tys = NumberValue \<longrightarrow>
       (\<exists>res this' h' av chk.
          derive this h tys vals args_ref bn knd = Inr (res, this', h') \<and>
          body this' = body this @
            [\<lparr> declaresDerivedId =
                  Some (t_identifier (''_'' @ base62_encode (uidCounter_of s))),
                entry_args = args_ref,
                entry_buildNode =
                  deriveNode (t_identifier (''_'' @ base62_encode (uidCounter_of s))) bn \<rparr>,
             chk] \<and>
          state_of h' (preludeGenerator this') =
            Some (s\<lparr>derivedIds_of :=
                      insert (t_identifier (''_'' @ base62_encode (uidCounter_of s)))
                        (derivedIds_of s),
                    uidCounter_of := number_increment (uidCounter_of s)\<rparr>) \<and>
          lookup h res = None \<and> getAbstractValue h' res = Some av \<and>
          buildNode av [] = Inr (t_identifier (''_'' @ base62_encode (uidCounter_of s))) \<and>
          intrinsicName av = Some (''_'' @ base62_encode (uidCounter_of s)) \<and>
          declaresDerivedId chk = None \<and>
          getArray h' (entry_args chk) = Some [AbstractV res] \<and>
          (\<forall>n hp. entry_buildNode chk [n] hp =
             Inr (t_ifStatement
                    (t_binaryExpression ''!=='' (t_unaryExpression ''typeof'' n)
                       (t_stringLiteral ''number''))
                    (t_blockStatement
                  [t_throwStatement
                     (t_newExpression (t_identifier ''Error'')
                        [t_stringLiteral ''Prepack model invariant violation''])]), hp)))) \<and>
     (getType tys = ObjectValue \<longrightarrow>
       (\<exists>res this' h' decl chk.
          derive this h tys vals args_ref bn knd = Inr (res, this', h') \<and>
          body this' = body this @ [decl, chk] \<and>
          declaresDerivedId decl =
            Some (t_identifier (''_'' @ base62_encode (uidCounter_of s))) \<and>
          getArray h' (entry_args chk) = Some [AbstractV res] \<and>
          (\<forall>n hp. entry_buildNode chk [n] hp =
             Inr (t_ifStatement
                    (t_logicalExpression ''||''
                       (t_binaryExpression ''!=='' (t_unaryExpression ''typeof'' n)
                          (t_stringLiteral ''object''))
                       (t_binaryExpression ''==='' n t_nullLiteral))
                    (t_blockStatement
                  [t_throwStatement
                     (t_newExpression (t_identifier ''Error'')
                        [t_stringLiteral ''Prepack model invariant violation''])]), hp)))) \<and>
     (getType tys = NullValue \<or> getType tys = UndefinedValue \<longrightarrow>
        derive this h tys vals args_ref bn knd = Inl InvariantViolation)"
proof (intro conjI impI)
  assume "getType tys = NullValue \<or> getType tys = UndefinedValue"
  with assms(1-4) show "derive this h tys vals args_ref bn knd = Inl InvariantViolation"
    by (rule derive_singleton)
next
  assume "getType tys = ObjectValue"
  then have ty: "typeofString_of (getType tys) = Inr (Some ''object'')"
    by (simp add: typeofString_of_def)
  from derive_typed [OF assms(1-4) ty, of vals knd]
  show "\<exists>res this' h' decl chk.
          derive this h tys vals args_ref bn knd = Inr (res, this', h') \<and>
          body this' = body this @ [decl, chk] \<and>
          declaresDerivedId decl =
            Some (t_identifier (''_'' @ base62_encode (uidCounter_of s))) \<and>
          getArray h' (entry_args chk) = Some [AbstractV res] \<and>
          (\<forall>n hp. entry_buildNode chk [n] hp =
             Inr (t_ifStatement
                    (t_logicalExpression ''||''
                       (t_binaryExpression ''!=='' (t_unaryExpression ''typeof'' n)
                          (t_stringLiteral ''object''))
                       (t_binaryExpression ''==='' n t_nullLiteral))
                    (t_blockStatement
                  [t_throwStatement
                     (t_newExpression (t_identifier ''Error'')
                        [t_stringLiteral ''Prepack model invariant violation''])]), hp))"
    by (elim exE conjE) (intro exI conjI, assumption, assumption, simp, assumption, simp)
next
  assume "getType tys = NumberValue"
  then have ty: "typeofString_of (getType tys) = Inr (Some ''number'')"
    by (simp add: typeofString_of_def)
  let ?ident = "t_identifier (''_'' @ base62_encode (uidCounter_of s))"
  let ?s' = "s\<lparr>derivedIds_of := insert ?ident (derivedIds_of s),
               uidCounter_of := number_increment (uidCounter_of s)\<rparr>"
  from derive_typed [OF assms(1-4) ty, of vals knd] obtain res this' h' av chk where 1:
    "derive this h tys vals args_ref bn knd = Inr (res, this', h')"
    "body this' = body this @
       [\<lparr> declaresDerivedId = Some ?ident, entry_args = args_ref,
           entry_buildNode = deriveNode ?ident bn \<rparr>, chk]"
    "realm this' = realm this" "preludeGenerator this' = preludeGenerator this"
    "state_of h' (preludeGenerator this) = Some ?s'"
    "getRealm h' (realm this) = Some r"
    "\<forall>a xs. getArray h a = Some xs \<longrightarrow> getArray h' a = Some xs"
    "unchanged_outside (footprint h (preludeGenerator this)) h h'"
    "lookup h res = None" "getAbstractValue h' res = Some av"
    "buildNode' av = FixedNode ?ident"
    "intrinsicName av = Some (''_'' @ base62_encode (uidCounter_of s))"
    "declaresDerivedId chk = None"
    "getArray h' (entry_args chk) = Some [AbstractV res]"
    "\<forall>n hp. entry_buildNode chk [n] hp =
       (if ''number'' = ''object''
        then Inr (t_ifStatement
               (t_logicalExpression ''||''
                  (t_binaryExpression ''!=='' (t_unaryExpression ''typeof'' n)
                     (t_stringLiteral ''number''))
                  (t_binaryExpression ''==='' n t_nullLiteral))
               (t_blockStatement
                  [t_throwStatement
                     (t_newExpression (t_identifier ''Error'')
                        [t_stringLiteral ''Prepack model invariant violation''])]), hp)
        else Inr (t_ifStatement
               (t_binaryExpression ''!=='' (t_unaryExpression ''typeof'' n)
                  (t_stringLiteral ''number''))
               (t_blockStatement
                  [t_throwStatement
                     (t_newExpression (t_identifier ''Error'')
                        [t_stringLiteral ''Prepack model invariant violation''])]), hp))"
    by (elim exE conjE)
  have st: "state_of h' (preludeGenerator this') = Some ?s'"
    using 1(5) by (simp add: 1(4))
  have bn: "buildNode av [] = Inr ?ident"
    using 1(11) by (simp add: buildNode_def)
  have chk: "\<forall>n hp. entry_buildNode chk [n] hp =
             Inr (t_ifStatement
                    (t_binaryExpression ''!=='' (t_unaryExpression ''typeof'' n)
                       (t_stringLiteral ''number''))
                    (t_blockStatement
                  [t_throwStatement
                     (t_newExpression (t_identifier ''Error'')
                        [t_stringLiteral ''Prepack model invariant violation''])]), hp)"
    using 1(15) by simp
  show "\<exists>res this' h' av chk.
          derive this h tys vals args_ref bn knd = Inr (res, this', h') \<and>
          body this' = body this @
            [\<lparr> declaresDerivedId = Some ?ident, entry_args = args_ref,
                entry_buildNode = deriveNode ?ident bn \<rparr>, chk] \<and>
          state_of h' (preludeGenerator this') = Some ?s' \<and>
          lookup h res = None \<and> getAbstractValue h' res = Some av \<and>
          buildNode av [] = Inr ?ident \<and>
          intrinsicName av = Some (''_'' @ base62_encode (uidCounter_of s)) \<and>
          declaresDerivedId chk = None \<and>
          getArray h' (entry_args chk) = Some [AbstractV res] \<and>
          (\<forall>n hp. entry_buildNode chk [n] hp =
             Inr (t_ifStatement
                    (t_binaryExpression ''!=='' (t_unaryExpression ''typeof'' n)
                       (t_stringLiteral ''number''))
                    (t_blockStatement
                  [t_throwStatement
                     (t_newExpression (t_identifier ''Error'')
                        [t_stringLiteral ''Prepack model invariant violation''])]), hp))"
    by (intro exI [of _ res] exI [of _ this'] exI [of _ h'] exI [of _ av] exI [of _ chk]
          conjI 1(1) 1(2) st 1(9) 1(10) bn 1(12) 1(13) 1(14) chk)
qed

text \<open>
  At the limit of the exact arithmetic of the counter the increment is lost, and two calls
  of \<open>derive\<close> in a row declare the same identifier.
\<close>

lemma derive_repeats_at_limit:
  assumes "state_of h (preludeGenerator this) = Some s" and "uidCounter_of s = 2 ^ 53"
    and "getRealm h (realm this) = Some r" and "isPartial r"
    and "instanceof_Function bn" and "instanceof_Function bn2"
    and "getType tys = NumberValue" and "getType tys2 = NumberValue"
  shows "\<exists>res this' h' res2 this2 h2 d1 c1 d2 c2.
           derive this h tys vals args_ref bn knd = Inr (res, this', h') \<and>
           derive this' h' tys2 vals2 args_ref2 bn2 knd2 = Inr (res2, this2, h2) \<and>
           body this2 = body this @ [d1, c1, d2, c2] \<and>
           declaresDerivedId d1 = Some (t_identifier (''_'' @ base62_encode (2 ^ 53))) \<and>
           declaresDerivedId d2 = declaresDerivedId d1"
proof -
  let ?ident = "t_identifier (''_'' @ base62_encode (uidCounter_of s))"
  let ?s' = "s\<lparr>derivedIds_of := insert ?ident (derivedIds_of s),
               uidCounter_of := number_increment (uidCounter_of s)\<rparr>"
  have ty: "typeofString_of (getType tys) = Inr (Some ''number'')"
    "typeofString_of (getType tys2) = Inr (Some ''number'')"
    using assms(7,8) by (simp_all add: typeofString_of_def)
  have e1: "instanceof_Function bn \<or> getArray h args_ref = Some []"
    using assms(5) by simp
  from derive_typed [OF assms(1,3,4) e1 ty(1), of vals knd] obtain res this' h' c1 where 1:
    "derive this h tys vals args_ref bn knd = Inr (res, this', h')"
    "body this' = body this @
       [\<lparr> declaresDerivedId = Some ?ident, entry_args = args_ref,
           entry_buildNode = deriveNode ?ident bn \<rparr>, c1]"
    "realm this' = realm this" "preludeGenerator this' = preludeGenerator this"
    "state_of h' (preludeGenerator this) = Some ?s'"
    "getRealm h' (realm this) = Some r"
    by (elim exE conjE)
  have st: "state_of h' (preludeGenerator this') = Some ?s'"
    using 1(5) by (simp add: 1(4))
  have rl: "getRealm h' (realm this') = Some r"
    using 1(6) by (simp add: 1(3))
  have e2: "instanceof_Function bn2 \<or> getArray h' args_ref2 = Some []"
    using assms(6) by simp
  have "number_increment (uidCounter_of s) = uidCounter_of s"
    unfolding assms(2) by (rule number_increment_limit)
  then have c: "uidCounter_of ?s' = uidCounter_of s"
    by simp
  from derive_typed [OF st rl assms(4) e2 ty(2), of vals2 knd2] obtain res2 this2 h2 c2 where 2:
    "derive this' h' tys2 vals2 args_ref2 bn2 knd2 = Inr (res2, this2, h2)"
    "body this2 = body this' @
       [\<lparr> declaresDerivedId = Some (t_identifier (''_'' @ base62_encode (uidCounter_of ?s'))),
           entry_args = args_ref2,
           entry_buildNode =
             deriveNode (t_identifier (''_'' @ base62_encode (uidCounter_of ?s'))) bn2 \<rparr>,
        c2]"
    by (elim exE conjE)
  let ?d1 = "\<lparr> declaresDerivedId = Some ?ident, entry_args = args_ref,
           entry_buildNode = deriveNode ?ident bn \<rparr>"
  let ?d2 = "\<lparr> declaresDerivedId = Some ?ident, entry_args = args_ref2,
           entry_buildNode = deriveNode ?ident bn2 \<rparr>"
  have b: "body this2 = body this @ [?d1, c1, ?d2, c2]"
    using 2(2) unfolding c 1(2) by simp
  have i: "declaresDerivedId ?d1 = Some (t_identifier (''_'' @ base62_encode (2 ^ 53)))"
    by (simp add: assms(2))
  have j: "declaresDerivedId ?d2 = declaresDerivedId ?d1" by simp
  show ?thesis
    by (intro exI [of _ res] exI [of _ this'] exI [of _ h'] exI [of _ res2] exI [of _ this2]
          exI [of _ h2] exI [of _ ?d1] exI [of _ c1] exI [of _ ?d2] exI [of _ c2]
          conjI 1(1) 2(1) b i j)
qed

text \<open>
  C1, amended. Take a session on a recorder whose allocator is live: calls on the
  allocator, calls of \<open>derive\<close> and replays of define-property entries, in any order
  and number, none of them a \<open>restore\<close>, all of which returned, and so few that the
  counter stays below \<open>2^53\<close>, where its arithmetic is exact (every call increments
  it at most once). Let the realm of the recorder be live and in partial mode (as the
  constructor of the recorder requires), and let a call of \<open>derive\<close> after the
  session meet the entry requirement: the recipe is a closure, or the dependency array is
  empty. The identifier of the call is \<open>_\<close> followed by the base-62 encoding of the
  counter, which is the identifier of no other counter value. It is none of the
  identifiers minted in the session, by \<open>generateUid\<close>,
  by \<open>memoiseReference\<close> or by an earlier call of \<open>derive\<close>, among which are
  all the identifiers declared by the entries that the session appended to the body. If
  the resolved type is Number, \<open>derive\<close> returns a new abstract value and appends
  exactly two entries: one declaring the identifier, and one invariant check whose only
  dependency is the new value, whose node is that identifier, and whose statement, for
  the node \<open>n\<close> of the dependency, throws if \<open>typeof n !== "number"\<close>; the
  allocator's counter is one higher and the identifier is among its derived identifiers.
  If the resolved type is Object, the condition of the check is
  \<open>typeof n !== "object" || n === null\<close>. If the resolved type is Null or Undefined,
  \<open>derive\<close> raises the internal-consistency fault.
\<close>

theorem derive_fresh_identifier_and_invariant:
  assumes "state_of h0 (preludeGenerator this0) = Some s0"
    and "\<forall>x \<in> set ops. \<not> restores x"
    and "uidCounter_of s0 + length ops < 2 ^ 53"
    and "rec_run (session_start this0 h0) ops = Inr c"
    and "recorder c = this" and "t_heap (calls c) = h"
    and "getRealm h (realm this) = Some r" and "isPartial r"
    and "instanceof_Function bn \<or> getArray h args_ref = Some []"
  shows
    "\<exists>s. state_of h (preludeGenerator this) = Some s \<and> uidCounter_of s < 2 ^ 53 \<and>
       ''_'' @ base62_encode (uidCounter_of s) \<notin> set (t_uids (calls c)) \<and>
       set (declared (drop (length (body this0)) (body this))) \<subseteq> set (t_uids (calls c)) \<and>
       (\<forall>k. k \<noteq> uidCounter_of s \<longrightarrow>
          ''_'' @ base62_encode k \<noteq> ''_'' @ base62_encode (uidCounter_of s)) \<and>
     (getType tys = NumberValue \<longrightarrow>
       (\<exists>res this' h' av chk.
          derive this h tys vals args_ref bn knd = Inr (res, this', h') \<and>
          body this' = body this @
            [\<lparr> declaresDerivedId =
                  Some (t_identifier (''_'' @ base62_encode (uidCounter_of s))),
                entry_args = args_ref,
                entry_buildNode =
                  deriveNode (t_identifier (''_'' @ base62_encode (uidCounter_of s))) bn \<rparr>,
             chk] \<and>
          state_of h' (preludeGenerator this') =
            Some (s\<lparr>derivedIds_of :=
                      insert (t_identifier (''_'' @ base62_encode (uidCounter_of s)))
                        (derivedIds_of s),
                    uidCounter_of := uidCounter_of s + 1\<rparr>) \<and>
          lookup h res = None \<and> getAbstractValue h' res = Some av \<and>
          buildNode av [] = Inr (t_identifier (''_'' @ base62_encode (uidCounter_of s))) \<and>
          intrinsicName av = Some (''_'' @ base62_encode (uidCounter_of s)) \<and>
          declaresDerivedId chk = None \<and>
          getArray h' (entry_args chk) = Some [AbstractV res] \<and>
          (\<forall>n hp. entry_buildNode chk [n] hp =
             Inr (t_ifStatement
                    (t_binaryExpression ''!=='' (t_unaryExpression ''typeof'' n)
                       (t_stringLiteral ''number''))
                    (t_blockStatement
                  [t_throwStatement
                     (t_newExpression (t_identifier ''Error'')
                        [t_stringLiteral ''Prepack model invariant violation''])]), hp)))) \<and>
     (getType tys = ObjectValue \<longrightarrow>
       (\<exists>res this' h' decl chk.
          derive this h tys vals args_ref bn knd = Inr (res, this', h') \<and>
          body this' = body this @ [decl, chk] \<and>
          declaresDerivedId decl =
            Some (t_identifier (''_'' @ base62_encode (uidCounter_of s))) \<and>
          getArray h' (entry_args chk) = Some [AbstractV res] \<and>
          (\<forall>n hp. entry_buildNode chk [n] hp =
             Inr (t_ifStatement
                    (t_logicalExpression ''||''
                       (t_binaryExpression ''!=='' (t_unaryExpression ''typeof'' n)
                          (t_stringLiteral ''object''))
                       (t_binaryExpression ''==='' n t_nullLiteral))
                    (t_blockStatement
                  [t_throwStatement
                     (t_newExpression (t_identifier ''Error'')
                        [t_stringLiteral ''Prepack model invariant violation''])]), hp)))) \<and>
     (getType tys = NullValue \<or> getType tys = UndefinedValue \<longrightarrow>
        derive this h tys vals args_ref bn knd = Inl InvariantViolation)"
proof -
  have st0: "state_of (t_heap (calls (session_start this0 h0)))
      (preludeGenerator (recorder (session_start this0 h0))) = Some s0"
    using assms(1) by (simp add: session_start_def start_def)
  from assms(3) have b: "uidCounter_of s0 + length ops \<le> 2 ^ 53" by simp
  from rec_run_counter [OF st0 assms(2) b assms(4)] obtain s new where 1:
    "state_of (t_heap (calls c)) (preludeGenerator (recorder c)) = Some s"
    "uidCounter_of s \<le> uidCounter_of s0 + length ops"
    "t_uids (calls c) = t_uids (calls (session_start this0 h0)) @
       map (\<lambda>k. ''_'' @ base62_encode k) [uidCounter_of s0 ..< uidCounter_of s]"
    "body (recorder c) = body (recorder (session_start this0 h0)) @ new"
    "set (declared new) \<subseteq> set (t_uids (calls c))"
    by (elim exE conjE)
  have s: "state_of h (preludeGenerator this) = Some s"
    using 1(1) by (simp add: assms(5,6))
  have lt: "uidCounter_of s < 2 ^ 53"
    using 1(2) assms(3) by simp
  have u: "t_uids (calls c) =
      map (\<lambda>k. ''_'' @ base62_encode k) [uidCounter_of s0 ..< uidCounter_of s]"
    using 1(3) by (simp add: session_start_def start_def)
  have fresh: "''_'' @ base62_encode (uidCounter_of s) \<notin> set (t_uids (calls c))"
    unfolding u by (auto dest: base62_encode_inj)
  have "body this = body this0 @ new"
    using 1(4) by (simp add: assms(5) session_start_def)
  with 1(5) have d:
    "set (declared (drop (length (body this0)) (body this))) \<subseteq> set (t_uids (calls c))"
    by simp
  have inj: "\<forall>k. k \<noteq> uidCounter_of s \<longrightarrow>
      ''_'' @ base62_encode k \<noteq> ''_'' @ base62_encode (uidCounter_of s)"
    by (auto dest: base62_encode_inj)
  note ex = number_increment_exact [OF lt]
  note blocks = derive_call [OF s assms(7,8,9), unfolded ex]
  show ?thesis
    by (intro exI [of _ s] conjI s lt fresh d inj blocks [THEN conjunct1]
          blocks [THEN conjunct2, THEN conjunct1] blocks [THEN conjunct2, THEN conjunct2])
qed

theorem derive_fresh_identifier_and_invariant_witness:
  "(\<exists>c. rec_run (session_start example_generator example_heap)
          [Derive (TypesDomain NumberValue) (elements_domain [NumberValue]) 5
             (Closure strictEquals) None] = Inr c \<and>
      t_uids (calls c) = [''_0''] \<and> declared (body (recorder c)) = [''_0''] \<and>
      (\<exists>s res this' h' av chk.
         state_of (t_heap (calls c)) (preludeGenerator (recorder c)) = Some s \<and>
         uidCounter_of s = 1 \<and>
         ''_'' @ base62_encode (uidCounter_of s) \<notin> set (t_uids (calls c)) \<and>
         derive (recorder c) (t_heap (calls c)) (TypesDomain NumberValue)
           (elements_domain [NumberValue]) 5 (FixedNode (t_identifier ''x'')) None =
           Inr (res, this', h') \<and>
         body this' = body (recorder c) @
           [\<lparr> declaresDerivedId = Some (t_identifier ''_1''), entry_args = 5,
               entry_buildNode =
                 deriveNode (t_identifier ''_1'') (FixedNode (t_identifier ''x'')) \<rparr>,
            chk] \<and>
         getAbstractValue h' res = Some av \<and>
         buildNode av [] = Inr (t_identifier ''_1'') \<and> intrinsicName av = Some ''_1'' \<and>
         getArray h' (entry_args chk) = Some [AbstractV res] \<and>
         entry_buildNode chk [t_identifier ''_1''] h' =
           Inr (t_ifStatement
                  (t_binaryExpression ''!=='' (t_unaryExpression ''typeof'' (t_identifier ''_1''))
                     (t_stringLiteral ''number''))
                  (t_blockStatement
                  [t_throwStatement
                     (t_newExpression (t_identifier ''Error'')
                        [t_stringLiteral ''Prepack model invariant violation''])]), h'))) \<and>
   (\<exists>res this' h' decl chk.
      derive example_generator example_heap (TypesDomain ObjectValue)
        (elements_domain [ObjectValue]) 5 (Closure strictEquals) None = Inr (res, this', h') \<and>
      body this' = [decl, chk] \<and>
      entry_buildNode chk [t_identifier ''_0''] h' =
        Inr (t_ifStatement
               (t_logicalExpression ''||''
                  (t_binaryExpression ''!=='' (t_unaryExpression ''typeof'' (t_identifier ''_0''))
                     (t_stringLiteral ''object''))
                  (t_binaryExpression ''==='' (t_identifier ''_0'') t_nullLiteral))
               (t_blockStatement
                  [t_throwStatement
                     (t_newExpression (t_identifier ''Error'')
                        [t_stringLiteral ''Prepack model invariant violation''])]), h')) \<and>
   derive example_generator example_heap (TypesDomain NullValue)
     (elements_domain []) 5 (Closure strictEquals) None = Inl InvariantViolation \<and>
   derive example_generator example_heap (TypesDomain UndefinedValue)
     (elements_domain []) 5 (Closure strictEquals) None = Inl InvariantViolation"
proof -
  let ?T = "TypesDomain NumberValue" and ?V = "elements_domain [NumberValue]"
  let ?s0 = "\<lparr> prelude_of = [], derivedIds_of = {}, memoisedRefs_of = Map.empty,
            uidCounter_of = 0 \<rparr>"
  let ?s1 = "?s0\<lparr>derivedIds_of := insert (t_identifier ''_0'') (derivedIds_of ?s0),
               uidCounter_of := number_increment (uidCounter_of ?s0)\<rparr>"
  have e1: "instanceof_Function (Closure strictEquals) \<or> getArray example_heap 5 = Some []"
    by simp
  have ty: "typeofString_of (getType ?T) = Inr (Some ''number'')"
    by (simp add: typeofString_of_def)
  from derive_typed [OF example_generator_facts(1,2,3) e1 ty, of ?V None]
  obtain res1 g1 h1 chk1 where 1:
    "derive example_generator example_heap ?T ?V 5 (Closure strictEquals) None =
       Inr (res1, g1, h1)"
    "body g1 = body example_generator @
       [\<lparr> declaresDerivedId = Some (t_identifier (''_'' @ base62_encode (uidCounter_of ?s0))),
           entry_args = 5,
           entry_buildNode =
             deriveNode (t_identifier (''_'' @ base62_encode (uidCounter_of ?s0)))
               (Closure strictEquals) \<rparr>, chk1]"
    "realm g1 = realm example_generator"
    "preludeGenerator g1 = preludeGenerator example_generator"
    "state_of h1 (preludeGenerator example_generator) =
       Some (?s0\<lparr>derivedIds_of :=
                 insert (t_identifier (''_'' @ base62_encode (uidCounter_of ?s0)))
                   (derivedIds_of ?s0),
               uidCounter_of := number_increment (uidCounter_of ?s0)\<rparr>)"
    "getRealm h1 (realm example_generator) = Some example_realm"
    "\<forall>a xs. getArray example_heap a = Some xs \<longrightarrow> getArray h1 a = Some xs"
    "declaresDerivedId chk1 = None"
    by (elim exE conjE)
  let ?c = "\<lparr> recorder = g1,
              calls = \<lparr> t_heap = h1, t_saved = [], t_uids = [''_0''], t_refs = [] \<rparr>,
              replayed = [] \<rparr>"
  have b0: "body example_generator = []" by (simp add: example_generator_def)
  have dcl: "declared (body g1) = [''_0'']"
    using 1(2,8) by (simp add: b0 base62_encode_0)
  have run: "rec_run (session_start example_generator example_heap)
      [Derive ?T ?V 5 (Closure strictEquals) None] = Inr ?c"
    using 1(1) dcl by (simp add: session_start_def start_def b0)
  have nr: "\<forall>x \<in> set [Derive ?T ?V 5 (Closure strictEquals) None]. \<not> restores x"
    by simp
  have bd: "uidCounter_of ?s0 + length [Derive ?T ?V 5 (Closure strictEquals) None] < 2 ^ 53"
    by simp
  have rc: "recorder ?c = g1" "t_heap (calls ?c) = h1" by simp_all
  have rl: "getRealm h1 (realm g1) = Some example_realm"
    using 1(6) by (simp add: 1(3))
  have e2: "instanceof_Function (FixedNode (t_identifier ''x'')) \<or> getArray h1 5 = Some []"
    using 1(7) example_generator_facts(4) by simp
  from derive_fresh_identifier_and_invariant
         [OF example_generator_facts(1) nr bd run rc rl example_generator_facts(3) e2,
          of ?T ?V None]
  obtain s res this' h' av chk where 2:
    "state_of h1 (preludeGenerator g1) = Some s"
    "''_'' @ base62_encode (uidCounter_of s) \<notin> set (t_uids (calls ?c))"
    "derive g1 h1 ?T ?V 5 (FixedNode (t_identifier ''x'')) None = Inr (res, this', h')"
    "body this' = body g1 @
       [\<lparr> declaresDerivedId = Some (t_identifier (''_'' @ base62_encode (uidCounter_of s))),
           entry_args = 5,
           entry_buildNode =
             deriveNode (t_identifier (''_'' @ base62_encode (uidCounter_of s)))
               (FixedNode (t_identifier ''x'')) \<rparr>, chk]"
    "getAbstractValue h' res = Some av"
    "buildNode av [] = Inr (t_identifier (''_'' @ base62_encode (uidCounter_of s)))"
    "intrinsicName av = Some (''_'' @ base62_encode (uidCounter_of s))"
    "getArray h' (entry_args chk) = Some [AbstractV res]"
    "\<forall>n hp. entry_buildNode chk [n] hp =
       Inr (t_ifStatement
              (t_binaryExpression ''!=='' (t_unaryExpression ''typeof'' n)
                 (t_stringLiteral ''number''))
              (t_blockStatement
                  [t_throwStatement
                     (t_newExpression (t_identifier ''Error'')
                        [t_stringLiteral ''Prepack model invariant violation''])]), hp)"
    by auto
  from 2(1) 1(5) have s: "uidCounter_of s = 1" by (auto simp: 1(4))
  have one: "base62_encode (uidCounter_of s) = ''1''"
    unfolding s by (rule base62_encode_1)
  have n: "\<exists>c. rec_run (session_start example_generator example_heap)
          [Derive ?T ?V 5 (Closure strictEquals) None] = Inr c \<and>
      t_uids (calls c) = [''_0''] \<and> declared (body (recorder c)) = [''_0''] \<and>
      (\<exists>s res this' h' av chk.
         state_of (t_heap (calls c)) (preludeGenerator (recorder c)) = Some s \<and>
         uidCounter_of s = 1 \<and>
         ''_'' @ base62_encode (uidCounter_of s) \<notin> set (t_uids (calls c)) \<and>
         derive (recorder c) (t_heap (calls c)) ?T ?V 5 (FixedNode (t_identifier ''x'')) None =
           Inr (res, this', h') \<and>
         body this' = body (recorder c) @
           [\<lparr> declaresDerivedId = Some (t_identifier ''_1''), entry_args = 5,
               entry_buildNode =
                 deriveNode (t_identifier ''_1'') (FixedNode (t_identifier ''x'')) \<rparr>,
            chk] \<and>
         getAbstractValue h' res = Some av \<and>
         buildNode av [] = Inr (t_identifier ''_1'') \<and> intrinsicName av = Some ''_1'' \<and>
         getArray h' (entry_args chk) = Some [AbstractV res] \<and>
         entry_buildNode chk [t_identifier ''_1''] h' =
           Inr (t_ifStatement
                  (t_binaryExpression ''!=='' (t_unaryExpression ''typeof'' (t_identifier ''_1''))
                     (t_stringLiteral ''number''))
                  (t_blockStatement
                  [t_throwStatement
                     (t_newExpression (t_identifier ''Error'')
                        [t_stringLiteral ''Prepack model invariant violation''])]), h'))"
    using run dcl 2 s one
    by (intro exI [of _ ?c] exI [of _ s] exI [of _ res] exI [of _ this'] exI [of _ h']
          exI [of _ av] exI [of _ chk]) simp
  have nr0: "\<forall>x \<in> set ([] :: rec_op list). \<not> restores x" by simp
  have bd0: "uidCounter_of ?s0 + length ([] :: rec_op list) < 2 ^ 53" by simp
  have run0: "rec_run (session_start example_generator example_heap) [] =
      Inr (session_start example_generator example_heap)"
    by simp
  have rc0: "recorder (session_start example_generator example_heap) = example_generator"
    "t_heap (calls (session_start example_generator example_heap)) = example_heap"
    by (simp_all add: session_start_def start_def)
  note w = derive_fresh_identifier_and_invariant
             [OF example_generator_facts(1) nr0 bd0 run0 rc0 example_generator_facts(2,3) e1]
  have o: "\<exists>res this' h' decl chk.
      derive example_generator example_heap (TypesDomain ObjectValue)
        (elements_domain [ObjectValue]) 5 (Closure strictEquals) None = Inr (res, this', h') \<and>
      body this' = [decl, chk] \<and>
      entry_buildNode chk [t_identifier ''_0''] h' =
        Inr (t_ifStatement
               (t_logicalExpression ''||''
                  (t_binaryExpression ''!=='' (t_unaryExpression ''typeof'' (t_identifier ''_0''))
                     (t_stringLiteral ''object''))
                  (t_binaryExpression ''==='' (t_identifier ''_0'') t_nullLiteral))
               (t_blockStatement
                  [t_throwStatement
                     (t_newExpression (t_identifier ''Error'')
                        [t_stringLiteral ''Prepack model invariant violation''])]), h')"
    using w [of "TypesDomain ObjectValue" "elements_domain [ObjectValue]" None]
    by (simp add: b0) blast
  have u: "derive example_generator example_heap (TypesDomain NullValue)
     (elements_domain []) 5 (Closure strictEquals) None = Inl InvariantViolation"
    "derive example_generator example_heap (TypesDomain UndefinedValue)
     (elements_domain []) 5 (Closure strictEquals) None = Inl InvariantViolation"
    using w [of "TypesDomain NullValue" "elements_domain []" None]
          w [of "TypesDomain UndefinedValue" "elements_domain []" None]
    by auto
  show ?thesis by (intro conjI n o u)
qed

section \<open>Generator: the emit operations\<close>

subsection \<open>Defining a property\<close>

lemma definePropertyNode_eq:
  "definePropertyNode pg key desc (objectNode # valueNode # getNode # setNode # rest) hp =
     (case memoiseReference hp pg ''Object.defineProperty'' of
        Inl e \<Rightarrow> Inl e
      | Inr (ref, hp1) \<Rightarrow>
          Inr (t_expressionStatement
                 (t_callExpression ref
                    [objectNode, t_stringLiteral key,
                     t_objectExpression
                       ([(t_identifier ''enumerable'',
                          t_booleanLiteral (truthy_bool (enumerable desc))),
                         (t_identifier ''configurable'',
                          t_booleanLiteral (truthy_bool (configurable desc)))] @
                        (if \<not> truthy_Value (get' desc) \<and> \<not> truthy_Value (set' desc)
                         then [(t_identifier ''writable'',
                                t_booleanLiteral (truthy_bool (writable desc))),
                               (t_identifier ''value'', valueNode)]
                         else [(t_identifier ''get'', getNode),
                               (t_identifier ''set'', setNode)]))]),
               hp1))"
  by (simp add: definePropertyNode_def Let_def split: sum.splits)

lemma four_nodes:
  "4 \<le> length (nodes :: 'a list) \<Longrightarrow> \<exists>a b c d rest. nodes = a # b # c # d # rest"
  by (cases nodes; simp; cases "tl nodes"; simp; cases "tl (tl nodes)"; simp;
      cases "tl (tl (tl nodes))"; simp)

lemma convertStringToMember_defineProperty:
  "convertStringToMember ''Object.defineProperty'' =
     Inr (t_memberExpression (t_identifier ''Object'') (t_identifier ''defineProperty''))"
  by (simp add: convertStringToMember_def)

lemma defineAll_memoised:
  assumes "state_of hp pg = Some s"
    and "memoisedRefs_of s ''Object.defineProperty'' = Some ref"
    and "\<forall>x \<in> set xs. 4 \<le> length (snd (snd x))"
  shows "\<exists>stmts. defineAll pg xs hp = Inr (stmts, hp) \<and> length stmts = length xs \<and>
           (\<forall>st \<in> set stmts. \<exists>as. st = t_expressionStatement (t_callExpression ref as))"
  using assms(3)
proof (induction xs)
  case Nil
  then show ?case by simp
next
  case (Cons x xs)
  obtain key desc nodes where x: "x = (key, desc, nodes)" by (cases x) auto
  with Cons.prems have "4 \<le> length nodes" by simp
  then obtain a b c d rest where n: "nodes = a # b # c # d # rest"
    using four_nodes by blast
  from Cons obtain stmts where s: "defineAll pg xs hp = Inr (stmts, hp)"
    "length stmts = length xs"
    "\<forall>st \<in> set stmts. \<exists>as. st = t_expressionStatement (t_callExpression ref as)"
    by auto
  have m: "memoiseReference hp pg ''Object.defineProperty'' = Inr (ref, hp)"
    using assms(1,2) by (rule memoiseReference_hit)
  show ?case
    using s by (simp add: x n definePropertyNode_eq m)
qed


lemma defineAll_once:
  assumes st: "state_of hp pg = Some s"
    and len: "\<forall>x \<in> set xs. 4 \<le> length (snd (snd x))"
  shows "\<exists>stmts hp' s' bs callee.
           defineAll pg xs hp = Inr (stmts, hp') \<and> length stmts = length xs \<and>
           state_of hp' pg = Some s' \<and>
           prelude_of s' = prelude_of s @ bs \<and> length bs \<le> 1 \<and>
           (\<forall>b \<in> set bs. b = t_variableDeclaration ''var''
              [(callee, t_memberExpression (t_identifier ''Object'')
                          (t_identifier ''defineProperty''))]) \<and>
           (\<forall>st \<in> set stmts. \<exists>as. st = t_expressionStatement (t_callExpression callee as)) \<and>
           (\<forall>ref. memoisedRefs_of s ''Object.defineProperty'' = Some ref \<longrightarrow>
              hp' = hp \<and> callee = ref)"
proof (cases "memoisedRefs_of s ''Object.defineProperty''")
  case (Some ref)
  from defineAll_memoised [OF st Some len] obtain stmts where
    "defineAll pg xs hp = Inr (stmts, hp)" "length stmts = length xs"
    "\<forall>st \<in> set stmts. \<exists>as. st = t_expressionStatement (t_callExpression ref as)"
    by blast
  with st Some show ?thesis
    by (intro exI [of _ stmts] exI [of _ hp] exI [of _ s] exI [of _ "[]"] exI [of _ ref]) simp
next
  case None
  show ?thesis
  proof (cases xs)
    case Nil
    with st None show ?thesis
      by (intro exI [of _ "[]"] exI [of _ hp] exI [of _ s] exI [of _ "[]"]) simp
  next
    case (Cons x rest)
    obtain key desc nodes where x: "x = (key, desc, nodes)" by (cases x) auto
    with len Cons have "4 \<le> length nodes" by simp
    then obtain a b c d more where n: "nodes = a # b # c # d # more"
      using four_nodes by blast
    let ?ref = "t_identifier (''_'' @ base62_encode (uidCounter_of s))"
    let ?b = "t_variableDeclaration ''var''
                [(?ref, t_memberExpression (t_identifier ''Object'')
                          (t_identifier ''defineProperty''))]"
    let ?s1 = "s\<lparr>prelude_of := prelude_of s @ [?b],
                 memoisedRefs_of := (memoisedRefs_of s)(''Object.defineProperty'' \<mapsto> ?ref),
                 uidCounter_of := number_increment (uidCounter_of s)\<rparr>"
    from memoiseReference_miss [OF st None convertStringToMember_defineProperty]
    obtain hp1 where 1:
      "memoiseReference hp pg ''Object.defineProperty'' = Inr (?ref, hp1)"
      "state_of hp1 pg = Some ?s1"
      by blast
    have m1: "memoisedRefs_of ?s1 ''Object.defineProperty'' = Some ?ref" by simp
    have len': "\<forall>x \<in> set rest. 4 \<le> length (snd (snd x))"
      using len Cons by simp
    from defineAll_memoised [OF 1(2) m1 len'] obtain stmts where 2:
      "defineAll pg rest hp1 = Inr (stmts, hp1)" "length stmts = length rest"
      "\<forall>st \<in> set stmts. \<exists>as. st = t_expressionStatement (t_callExpression ?ref as)"
      by blast
    obtain st0 where 3: "definePropertyNode pg key desc nodes hp = Inr (st0, hp1)"
      "\<exists>as. st0 = t_expressionStatement (t_callExpression ?ref as)"
      by (simp add: n definePropertyNode_eq 1(1))
    have d: "defineAll pg xs hp = Inr (st0 # stmts, hp1)"
      using 2(1) 3(1) by (simp add: Cons x)
    have p: "prelude_of ?s1 = prelude_of s @ [?b]" by simp
    show ?thesis
      using d 2(2,3) 3(2) 1(2) p None
      by (intro exI [of _ "st0 # stmts"] exI [of _ hp1] exI [of _ ?s1] exI [of _ "[?b]"]
            exI [of _ ?ref]) (simp add: Cons)
  qed
qed


lemma or_undefined_eq:
  "Realm_of h object = Inr ra \<Longrightarrow> getRealm h ra = Some r \<Longrightarrow>
   or_undefined h object x =
     Inr (case x of Some v \<Rightarrow> v | None \<Rightarrow> undefined' (intrinsics r))"
  by (simp add: or_undefined_def split: option.splits)

lemma emitDefineProperty_assign:
  assumes "truthy_bool (enumerable desc)" "truthy_bool (configurable desc)"
    "truthy_bool (writable desc)" "value' desc = Some v"
  shows "emitDefineProperty this h object key desc =
           Inr (emitPropertyAssignment this h object key v)"
  using assms by (simp add: emitDefineProperty_def)

lemma emitDefineProperty_define:
  assumes "Realm_of h object = Inr ra" and "getRealm h ra = Some r"
    and "\<not> (truthy_bool (enumerable desc) \<and> truthy_bool (configurable desc) \<and>
            truthy_bool (writable desc) \<and> truthy_Value (value' desc))"
  shows "emitDefineProperty this h object key desc =
           Inr (this\<lparr>body := body this @
                  [\<lparr> declaresDerivedId = None, entry_args = length h,
                      entry_buildNode =
                        definePropertyNode (preludeGenerator this) key desc \<rparr>]\<rparr>,
                h @ [ArrayObj
                  [object,
                   case value' desc of Some x \<Rightarrow> x | None \<Rightarrow> undefined' (intrinsics r),
                   case get' desc of Some x \<Rightarrow> x | None \<Rightarrow> undefined' (intrinsics r),
                   case set' desc of Some x \<Rightarrow> x | None \<Rightarrow> undefined' (intrinsics r)]])"
  unfolding emitDefineProperty_def
  by (simp only: assms(3) if_False)
     (simp add: or_undefined_eq [OF assms(1,2)] alloc_def body_push_def)

lemma example_Realm_of: "Realm_of example_heap (AbstractV 6) = Inr 0"
  by (simp add: Realm_of_def example_heap_value example_value_def)

lemma example_heap_length: "length example_heap = 7"
  by (simp add: example_heap_def)

lemma rec_run_replayed:
  "rec_run c0 ops = Inr c \<Longrightarrow>
   length (replayed c) = length (replayed c0) + length (filter replays ops)"
proof (induction ops arbitrary: c0)
  case Nil
  then show ?case by simp
next
  case (Cons x xs)
  from Cons.prems obtain c1 where 1: "rec_step c0 x = Inr c1" "rec_run c1 xs = Inr c"
    by (auto split: sum.splits)
  from 1(1) have "length (replayed c1) = length (replayed c0) + (if replays x then 1 else 0)"
    by (cases x) (auto split: sum.splits prod.splits)
  with Cons.IH [OF 1(2)] show ?case by simp
qed

lemma appended_for_member:
  "b \<in> set (appended_for key log) \<Longrightarrow> \<exists>e \<in> set log. fst e = key \<and> b \<in> set (snd (snd e))"
proof -
  assume "b \<in> set (appended_for key log)"
  then obtain k r st where "(k, r, st) \<in> set log" "k = key" "b \<in> set st"
    by (auto simp: appended_for_def split: if_splits)
  then show ?thesis by (intro bexI [of _ "(k, r, st)"]) simp_all
qed

lemma session_defineProperty:
  assumes "state_of hp (preludeGenerator this) = Some s"
    and "\<forall>x \<in> set ops. \<not> restores x"
    and "rec_run (session_start this hp) ops = Inr c"
  shows "\<exists>s' callee.
     state_of (t_heap (calls c)) (preludeGenerator (recorder c)) = Some s' \<and>
     prelude_of s' =
       prelude_of s @ concat (map (\<lambda>(k, r, st). st) (t_refs (calls c))) \<and>
     length (appended_for ''Object.defineProperty'' (t_refs (calls c))) \<le> 1 \<and>
     (\<forall>b \<in> set (appended_for ''Object.defineProperty'' (t_refs (calls c))).
        b = t_variableDeclaration ''var''
          [(callee, t_memberExpression (t_identifier ''Object'')
                      (t_identifier ''defineProperty''))]) \<and>
     (\<forall>st \<in> set (replayed c).
        \<exists>as. st = t_expressionStatement (t_callExpression callee as)) \<and>
     length (replayed c) = length (filter replays ops)"
proof -
  let ?k = "''Object.defineProperty''"
  let ?c0 = "session_start this hp"
  have st0: "state_of (t_heap (calls ?c0)) (preludeGenerator (recorder ?c0)) = Some s"
    using assms(1) by (simp add: session_start_def start_def)
  have I0: "\<forall>e \<in> set (t_refs (calls ?c0)). memoisedRefs_of s (fst e) = Some (fst (snd e)) \<and>
               (\<forall>b \<in> set (snd (snd e)). \<exists>member. convertStringToMember (fst e) = Inr member \<and>
                  b = t_variableDeclaration ''var'' [(fst (snd e), member)])"
    by (simp add: session_start_def start_def)
  have A0: "\<forall>k. length (appended_for k (t_refs (calls ?c0))) \<le> 1"
    by (simp add: session_start_def start_def appended_for_def)
  have P0: "prelude_of s = prelude_of s @ concat (map (\<lambda>e. snd (snd e)) (t_refs (calls ?c0)))"
    by (simp add: session_start_def start_def)
  have O0: "\<forall>st \<in> set (replayed ?c0). \<exists>r as b.
               st = t_expressionStatement (t_callExpression r as) \<and>
               (?k, r, b) \<in> set (t_refs (calls ?c0))"
    by (simp add: session_start_def)
  from rec_run_refs [OF st0 assms(2,3) I0 A0 P0 O0] obtain s' where 1:
    "state_of (t_heap (calls c)) (preludeGenerator (recorder c)) = Some s'"
    "\<forall>e \<in> set (t_refs (calls c)). memoisedRefs_of s' (fst e) = Some (fst (snd e)) \<and>
               (\<forall>b \<in> set (snd (snd e)). \<exists>member. convertStringToMember (fst e) = Inr member \<and>
                  b = t_variableDeclaration ''var'' [(fst (snd e), member)])"
    "\<forall>k. length (appended_for k (t_refs (calls c))) \<le> 1"
    "prelude_of s' = prelude_of s @ concat (map (\<lambda>e. snd (snd e)) (t_refs (calls c)))"
    "\<forall>st \<in> set (replayed c). \<exists>r as b.
               st = t_expressionStatement (t_callExpression r as) \<and>
               (?k, r, b) \<in> set (t_refs (calls c))"
    by (elim exE conjE)
  define callee where
    "callee = (case memoisedRefs_of s' ?k of Some r \<Rightarrow> r | None \<Rightarrow> t_nullLiteral)"
  have ref: "fst (snd e) = callee" if "e \<in> set (t_refs (calls c))" "fst e = ?k" for e
  proof -
    from 1(2) that(1) have "memoisedRefs_of s' (fst e) = Some (fst (snd e))" by blast
    then show ?thesis by (simp add: callee_def that(2))
  qed
  have P: "prelude_of s' =
      prelude_of s @ concat (map (\<lambda>(k, r, st). st) (t_refs (calls c)))"
    unfolding case_prod_beta by (rule 1(4))
  have A: "length (appended_for ?k (t_refs (calls c))) \<le> 1"
    using 1(3) by blast
  have B: "\<forall>b \<in> set (appended_for ?k (t_refs (calls c))).
      b = t_variableDeclaration ''var''
        [(callee, t_memberExpression (t_identifier ''Object'')
                    (t_identifier ''defineProperty''))]"
  proof
    fix b assume "b \<in> set (appended_for ?k (t_refs (calls c)))"
    from appended_for_member [OF this] obtain e where e:
      "e \<in> set (t_refs (calls c))" "fst e = ?k" "b \<in> set (snd (snd e))"
      by blast
    from 1(2) e(1) have "\<forall>b \<in> set (snd (snd e)).
        \<exists>member. convertStringToMember (fst e) = Inr member \<and>
          b = t_variableDeclaration ''var'' [(fst (snd e), member)]"
      by blast
    with e(3) obtain member where
      "convertStringToMember (fst e) = Inr member"
      "b = t_variableDeclaration ''var'' [(fst (snd e), member)]"
      by blast
    then show "b = t_variableDeclaration ''var''
        [(callee, t_memberExpression (t_identifier ''Object'')
                    (t_identifier ''defineProperty''))]"
      using ref [OF e(1,2)] by (simp add: e(2) convertStringToMember_defineProperty)
  qed
  have O: "\<forall>st \<in> set (replayed c).
      \<exists>as. st = t_expressionStatement (t_callExpression callee as)"
  proof
    fix st assume "st \<in> set (replayed c)"
    with 1(5) obtain r as b where r: "st = t_expressionStatement (t_callExpression r as)"
      "(?k, r, b) \<in> set (t_refs (calls c))"
      by blast
    from ref [OF r(2)] have "r = callee" by simp
    with r(1) show "\<exists>as. st = t_expressionStatement (t_callExpression callee as)" by blast
  qed
  have L: "length (replayed c) = length (filter replays ops)"
    using rec_run_replayed [OF assms(3)] by (simp add: session_start_def)
  show ?thesis
    by (intro exI [of _ s'] exI [of _ callee] conjI 1(1) P A B O L)
qed

text \<open>
  C8, as stated, fails in its last part: \<open>restore\<close> copies the prelude and the map
  of the snapshot back, so a reference memoised after the snapshot is forgotten. After
  \<open>save\<close>, the replay of a define-property entry, \<open>restore\<close> of that snapshot,
  \<open>generateUid\<close> and the replay of a second entry, on the allocator of the example
  heap, the two replays have appended a binding of \<open>Object.defineProperty\<close> each, and
  they call \<open>_0\<close> and \<open>_1\<close>.
\<close>

theorem emitDefineProperty_binds_again_after_restore:
  "map_sum id (\<lambda>c. (t_refs (calls c), replayed c))
     (rec_run (session_start example_generator example_heap)
        [Call Save,
         Replay ''q'' \<lparr> writable = None, enumerable = Some True, configurable = None,
                  value' = None, get' = Some (ConcreteV 0 8), set' = None \<rparr> [t_identifier ''o'', t_identifier ''v'', t_identifier ''g'', t_identifier ''s''],
         Call (Restore 0),
         Call GenerateUid,
         Replay ''r'' \<lparr> writable = None, enumerable = Some True, configurable = None,
                  value' = None, get' = Some (ConcreteV 0 8), set' = None \<rparr> [t_identifier ''o'', t_identifier ''v'', t_identifier ''g'', t_identifier ''s'']]) =
   Inr ([(''Object.defineProperty'', t_identifier ''_0'',
          [t_variableDeclaration ''var''
             [(t_identifier ''_0'',
               t_memberExpression (t_identifier ''Object'') (t_identifier ''defineProperty''))]]),
         (''Object.defineProperty'', t_identifier ''_1'',
          [t_variableDeclaration ''var''
             [(t_identifier ''_1'',
               t_memberExpression (t_identifier ''Object'') (t_identifier ''defineProperty''))]])],
        [t_expressionStatement
             (t_callExpression (t_identifier ''_0'')
                [t_identifier ''o'', t_stringLiteral ''q'',
                 t_objectExpression
                   [(t_identifier ''enumerable'', t_booleanLiteral True),
                    (t_identifier ''configurable'', t_booleanLiteral False),
                    (t_identifier ''get'', t_identifier ''g''),
                    (t_identifier ''set'', t_identifier ''s'')]]),
         t_expressionStatement
             (t_callExpression (t_identifier ''_1'')
                [t_identifier ''o'', t_stringLiteral ''r'',
                 t_objectExpression
                   [(t_identifier ''enumerable'', t_booleanLiteral True),
                    (t_identifier ''configurable'', t_booleanLiteral False),
                    (t_identifier ''get'', t_identifier ''g''),
                    (t_identifier ''set'', t_identifier ''s'')]])])"
proof -
  let ?k = "''Object.defineProperty''"
  let ?s0 = "\<lparr> prelude_of = [], derivedIds_of = {}, memoisedRefs_of = Map.empty,
            uidCounter_of = 0 \<rparr>"
  let ?b0 = "t_variableDeclaration ''var''
             [(t_identifier ''_0'',
               t_memberExpression (t_identifier ''Object'') (t_identifier ''defineProperty''))]"
  let ?b1 = "t_variableDeclaration ''var''
             [(t_identifier ''_1'',
               t_memberExpression (t_identifier ''Object'') (t_identifier ''defineProperty''))]"
  have pg: "preludeGenerator example_generator = 4"
    by (simp add: example_generator_def)
  have len: "length example_heap = 7" by (simp add: example_heap_def)
  from save_effect [OF example_heap_state] obtain h1 where h1:
    "save example_heap 4 = Inr (10, h1)" "state_of h1 10 = Some ?s0" "state_of h1 4 = Some ?s0"
    "footprint h1 10 = {10, 11, 12, 13}" "footprint h1 4 = footprint example_heap 4"
    unfolding len by auto
  have d: "footprint h1 10 \<inter> footprint h1 4 = {}"
    unfolding h1(4,5) using footprint_less [OF example_heap_state] unfolding len by fastforce
  from memoiseReference_miss [OF h1(3) _ convertStringToMember_defineProperty]
  obtain h2 where h2:
    "memoiseReference h1 4 ?k = Inr (t_identifier ''_0'', h2)"
    "state_of h2 4 = Some (?s0\<lparr>prelude_of := [?b0],
        memoisedRefs_of := [?k \<mapsto> t_identifier ''_0''], uidCounter_of := 1\<rparr>)"
    "unchanged_outside (footprint h1 4) h1 h2"
    by (auto simp: base62_encode_0)
  from state_of_frame [OF h1(2) h2(3) d] have s2: "state_of h2 10 = Some ?s0" by simp
  from h2(2) obtain p where p: "lookup h2 4 = Some (PreludeGeneratorObj p)"
    by (auto simp: state_of_Some_iff)
  have ne: "(10::nat) \<noteq> 4" by simp
  from restore_effect [OF s2 p ne] obtain h3 where h3:
    "restore h2 4 10 = Inr h3" "state_of h3 4 = Some ?s0"
    by blast
  from generateUid_effect [OF h3(2)] obtain h4 where h4:
    "generateUid h3 4 = Inr (''_0'', h4)"
    "state_of h4 4 = Some (?s0\<lparr>uidCounter_of := 1\<rparr>)"
    by (auto simp: base62_encode_0)
  have e1: "base62_encode (Suc 0) = ''1''" using base62_encode_1 by simp
  from memoiseReference_miss [OF h4(2) _ convertStringToMember_defineProperty]
  obtain h5 where h5:
    "memoiseReference h4 4 ?k = Inr (t_identifier ''_1'', h5)"
    "state_of h5 4 = Some (?s0\<lparr>prelude_of := [?b1],
        memoisedRefs_of := [?k \<mapsto> t_identifier ''_1''], uidCounter_of := 2\<rparr>)"
    by (auto simp: e1)
  show ?thesis
    using h1(1,3) h2(1,2) h3 h4 h5
    by (simp add: session_start_def start_def pg definePropertyNode_eq prelude_at_def
          minted_def)
qed

text \<open>
  C8, amended. For an object whose realm is on the heap: when \<open>enumerable\<close>,
  \<open>configurable\<close> and \<open>writable\<close> are truthy and the descriptor carries a value,
  \<open>emitDefineProperty\<close> is \<open>emitPropertyAssignment\<close> with that value; otherwise it
  appends one entry whose dependency array is the object, then the value, the getter and
  the setter, each replaced by the realm's \<open>undefined\<close> when absent. Replayed with the
  four nodes of its dependencies on a live allocator, the recipe of that entry returns
  the call of the node that \<open>memoiseReference("Object.defineProperty")\<close> returns,
  on the object node, the key and a descriptor object that holds \<open>enumerable\<close>,
  \<open>configurable\<close> and the \<open>get\<close>/\<open>set\<close> pair when a getter or a setter is
  present, the \<open>writable\<close>/\<open>value\<close> pair otherwise; its effect on the heap is that
  of \<open>memoiseReference\<close>. Replaying any number of such entries, one after the other,
  returns; it appends at most one statement to the prelude, the binding of the callee to
  \<open>Object.defineProperty\<close>; every statement returned calls that one callee; and when
  the reference was memoised before, the heap does not change at all. And in every
  session that contains no \<open>restore\<close> and has returned, whatever calls on the
  allocator and calls of \<open>derive\<close> stand between the replays, the prelude has grown
  by the statements that calls of \<open>memoiseReference\<close> appended, by clients or by
  replays; at most one of them was appended for \<open>Object.defineProperty\<close>, the binding
  of the callee; every replay has returned a statement; and all these statements call
  that one callee.
\<close>

theorem emitDefineProperty_policy:
  assumes "Realm_of h object = Inr ra" and "getRealm h ra = Some r"
    and "state_of hp (preludeGenerator this) = Some s"
    and "\<forall>x \<in> set xs. 4 \<le> length (snd (snd x))"
    and "\<forall>x \<in> set ops. \<not> restores x"
    and "rec_run (session_start this hp) ops = Inr c"
  shows
    "(truthy_bool (enumerable desc) \<and> truthy_bool (configurable desc) \<and>
      truthy_bool (writable desc) \<and> value' desc = Some v \<longrightarrow>
        emitDefineProperty this h object key desc =
          Inr (emitPropertyAssignment this h object key v)) \<and>
     (\<not> (truthy_bool (enumerable desc) \<and> truthy_bool (configurable desc) \<and>
         truthy_bool (writable desc) \<and> truthy_Value (value' desc)) \<longrightarrow>
        emitDefineProperty this h object key desc =
          Inr (this\<lparr>body := body this @
                 [\<lparr> declaresDerivedId = None, entry_args = length h,
                     entry_buildNode =
                       definePropertyNode (preludeGenerator this) key desc \<rparr>]\<rparr>,
               h @ [ArrayObj
                 [object,
                  case value' desc of Some x \<Rightarrow> x | None \<Rightarrow> undefined' (intrinsics r),
                  case get' desc of Some x \<Rightarrow> x | None \<Rightarrow> undefined' (intrinsics r),
                  case set' desc of Some x \<Rightarrow> x | None \<Rightarrow> undefined' (intrinsics r)]])) \<and>
     (\<exists>callee hp'.
        memoiseReference hp (preludeGenerator this) ''Object.defineProperty'' =
          Inr (callee, hp') \<and>
        definePropertyNode (preludeGenerator this) key desc
          [objectNode, valueNode, getNode, setNode] hp =
          Inr (t_expressionStatement
                 (t_callExpression callee
                    [objectNode, t_stringLiteral key,
                     t_objectExpression
                       ([(t_identifier ''enumerable'',
                          t_booleanLiteral (truthy_bool (enumerable desc))),
                         (t_identifier ''configurable'',
                          t_booleanLiteral (truthy_bool (configurable desc)))] @
                        (if truthy_Value (get' desc) \<or> truthy_Value (set' desc)
                         then [(t_identifier ''get'', getNode),
                               (t_identifier ''set'', setNode)]
                         else [(t_identifier ''writable'',
                                t_booleanLiteral (truthy_bool (writable desc))),
                               (t_identifier ''value'', valueNode)]))]),
               hp')) \<and>
     (\<exists>stmts hp' s' bs callee.
        defineAll (preludeGenerator this) xs hp = Inr (stmts, hp') \<and>
        length stmts = length xs \<and>
        state_of hp' (preludeGenerator this) = Some s' \<and>
        prelude_of s' = prelude_of s @ bs \<and> length bs \<le> 1 \<and>
        (\<forall>b \<in> set bs. b = t_variableDeclaration ''var''
           [(callee, t_memberExpression (t_identifier ''Object'')
                       (t_identifier ''defineProperty''))]) \<and>
        (\<forall>st \<in> set stmts. \<exists>as. st = t_expressionStatement (t_callExpression callee as)) \<and>
        (\<forall>ref. memoisedRefs_of s ''Object.defineProperty'' = Some ref \<longrightarrow>
           hp' = hp \<and> callee = ref)) \<and>
     (\<exists>s' callee.
        state_of (t_heap (calls c)) (preludeGenerator (recorder c)) = Some s' \<and>
        prelude_of s' =
          prelude_of s @ concat (map (\<lambda>(k, r, st). st) (t_refs (calls c))) \<and>
        length (appended_for ''Object.defineProperty'' (t_refs (calls c))) \<le> 1 \<and>
        (\<forall>b \<in> set (appended_for ''Object.defineProperty'' (t_refs (calls c))).
           b = t_variableDeclaration ''var''
             [(callee, t_memberExpression (t_identifier ''Object'')
                         (t_identifier ''defineProperty''))]) \<and>
        (\<forall>st \<in> set (replayed c).
           \<exists>as. st = t_expressionStatement (t_callExpression callee as)) \<and>
        length (replayed c) = length (filter replays ops))"
proof (intro conjI impI)
  assume "truthy_bool (enumerable desc) \<and> truthy_bool (configurable desc) \<and>
      truthy_bool (writable desc) \<and> value' desc = Some v"
  then show "emitDefineProperty this h object key desc =
      Inr (emitPropertyAssignment this h object key v)"
    by (simp add: emitDefineProperty_assign)
next
  assume "\<not> (truthy_bool (enumerable desc) \<and> truthy_bool (configurable desc) \<and>
         truthy_bool (writable desc) \<and> truthy_Value (value' desc))"
  with assms(1,2) show "emitDefineProperty this h object key desc =
          Inr (this\<lparr>body := body this @
                 [\<lparr> declaresDerivedId = None, entry_args = length h,
                     entry_buildNode =
                       definePropertyNode (preludeGenerator this) key desc \<rparr>]\<rparr>,
               h @ [ArrayObj
                 [object,
                  case value' desc of Some x \<Rightarrow> x | None \<Rightarrow> undefined' (intrinsics r),
                  case get' desc of Some x \<Rightarrow> x | None \<Rightarrow> undefined' (intrinsics r),
                  case set' desc of Some x \<Rightarrow> x | None \<Rightarrow> undefined' (intrinsics r)]])"
    by (rule emitDefineProperty_define)
next
  obtain callee hp' where m:
    "memoiseReference hp (preludeGenerator this) ''Object.defineProperty'' = Inr (callee, hp')"
  proof (cases "memoisedRefs_of s ''Object.defineProperty''")
    case None
    from memoiseReference_miss [OF assms(3) None convertStringToMember_defineProperty] that
    show ?thesis by blast
  next
    case (Some ref)
    from memoiseReference_hit [OF assms(3) Some] that show ?thesis by blast
  qed
  show "\<exists>callee hp'.
        memoiseReference hp (preludeGenerator this) ''Object.defineProperty'' =
          Inr (callee, hp') \<and>
        definePropertyNode (preludeGenerator this) key desc
          [objectNode, valueNode, getNode, setNode] hp =
          Inr (t_expressionStatement
                 (t_callExpression callee
                    [objectNode, t_stringLiteral key,
                     t_objectExpression
                       ([(t_identifier ''enumerable'',
                          t_booleanLiteral (truthy_bool (enumerable desc))),
                         (t_identifier ''configurable'',
                          t_booleanLiteral (truthy_bool (configurable desc)))] @
                        (if truthy_Value (get' desc) \<or> truthy_Value (set' desc)
                         then [(t_identifier ''get'', getNode),
                               (t_identifier ''set'', setNode)]
                         else [(t_identifier ''writable'',
                                t_booleanLiteral (truthy_bool (writable desc))),
                               (t_identifier ''value'', valueNode)]))]),
               hp')"
    by (intro exI [of _ callee] exI [of _ hp']) (simp add: m definePropertyNode_eq)
next
  show "\<exists>stmts hp' s' bs callee.
        defineAll (preludeGenerator this) xs hp = Inr (stmts, hp') \<and>
        length stmts = length xs \<and>
        state_of hp' (preludeGenerator this) = Some s' \<and>
        prelude_of s' = prelude_of s @ bs \<and> length bs \<le> 1 \<and>
        (\<forall>b \<in> set bs. b = t_variableDeclaration ''var''
           [(callee, t_memberExpression (t_identifier ''Object'')
                       (t_identifier ''defineProperty''))]) \<and>
        (\<forall>st \<in> set stmts. \<exists>as. st = t_expressionStatement (t_callExpression callee as)) \<and>
        (\<forall>ref. memoisedRefs_of s ''Object.defineProperty'' = Some ref \<longrightarrow>
           hp' = hp \<and> callee = ref)"
    using assms(3,4) by (rule defineAll_once)
next
  show "\<exists>s' callee.
        state_of (t_heap (calls c)) (preludeGenerator (recorder c)) = Some s' \<and>
        prelude_of s' =
          prelude_of s @ concat (map (\<lambda>(k, r, st). st) (t_refs (calls c))) \<and>
        length (appended_for ''Object.defineProperty'' (t_refs (calls c))) \<le> 1 \<and>
        (\<forall>b \<in> set (appended_for ''Object.defineProperty'' (t_refs (calls c))).
           b = t_variableDeclaration ''var''
             [(callee, t_memberExpression (t_identifier ''Object'')
                         (t_identifier ''defineProperty''))]) \<and>
        (\<forall>st \<in> set (replayed c).
           \<exists>as. st = t_expressionStatement (t_callExpression callee as)) \<and>
        length (replayed c) = length (filter replays ops)"
    using assms(3,5,6) by (rule session_defineProperty)
qed

theorem emitDefineProperty_policy_witness:
  "emitDefineProperty example_generator example_heap (AbstractV 6) ''p''
     \<lparr> writable = Some True, enumerable = Some True, configurable = Some True,
       value' = Some (ConcreteV 0 7), get' = None, set' = None \<rparr> =
     Inr (emitPropertyAssignment example_generator example_heap (AbstractV 6) ''p''
            (ConcreteV 0 7)) \<and>
   emitDefineProperty example_generator example_heap (AbstractV 6) ''q''
     \<lparr> writable = None, enumerable = Some True, configurable = None,
       value' = None, get' = Some (ConcreteV 0 8), set' = None \<rparr> =
     Inr (example_generator\<lparr>body :=
            [\<lparr> declaresDerivedId = None, entry_args = 7,
                entry_buildNode = definePropertyNode 4 ''q''
                  \<lparr> writable = None, enumerable = Some True, configurable = None,
                    value' = None, get' = Some (ConcreteV 0 8), set' = None \<rparr> \<rparr>]\<rparr>,
          example_heap @
            [ArrayObj [AbstractV 6, ConcreteV 0 0, ConcreteV 0 8, ConcreteV 0 0]]) \<and>
   (\<exists>callee hp'.
      memoiseReference example_heap 4 ''Object.defineProperty'' = Inr (callee, hp') \<and>
      definePropertyNode 4 ''q''
        \<lparr> writable = None, enumerable = Some True, configurable = None,
          value' = None, get' = Some (ConcreteV 0 8), set' = None \<rparr>
        [t_identifier ''o'', t_identifier ''v'', t_identifier ''g'', t_identifier ''s'']
        example_heap =
        Inr (t_expressionStatement
               (t_callExpression callee
                  [t_identifier ''o'', t_stringLiteral ''q'',
                   t_objectExpression
                     [(t_identifier ''enumerable'', t_booleanLiteral True),
                      (t_identifier ''configurable'', t_booleanLiteral False),
                      (t_identifier ''get'', t_identifier ''g''),
                      (t_identifier ''set'', t_identifier ''s'')]]),
             hp')) \<and>
   (\<exists>stmts hp' s' bs.
      defineAll 4
        [(''q'', \<lparr> writable = None, enumerable = Some True, configurable = None,
                  value' = None, get' = Some (ConcreteV 0 8), set' = None \<rparr>,
          [t_identifier ''o'', t_identifier ''v'', t_identifier ''g'', t_identifier ''s'']),
         (''r'', \<lparr> writable = Some False, enumerable = None, configurable = None,
                  value' = Some (ConcreteV 0 7), get' = None, set' = None \<rparr>,
          [t_identifier ''o'', t_identifier ''v'', t_identifier ''g'', t_identifier ''s''])]
        example_heap = Inr (stmts, hp') \<and>
      length stmts = 2 \<and> state_of hp' 4 = Some s' \<and>
      prelude_of s' = bs \<and> length bs \<le> 1) \<and>
   (\<exists>c. rec_run (session_start example_generator example_heap)
        [Replay ''q'' \<lparr> writable = None, enumerable = Some True, configurable = None,
                  value' = None, get' = Some (ConcreteV 0 8), set' = None \<rparr> [t_identifier ''o'', t_identifier ''v'', t_identifier ''g'', t_identifier ''s''],
         Call GenerateUid,
         Replay ''r'' \<lparr> writable = None, enumerable = Some True, configurable = None,
                  value' = None, get' = Some (ConcreteV 0 8), set' = None \<rparr> [t_identifier ''o'', t_identifier ''v'', t_identifier ''g'', t_identifier ''s'']] = Inr c \<and>
      t_refs (calls c) =
        [(''Object.defineProperty'', t_identifier ''_0'',
          [t_variableDeclaration ''var''
             [(t_identifier ''_0'',
               t_memberExpression (t_identifier ''Object'') (t_identifier ''defineProperty''))]]),
         (''Object.defineProperty'', t_identifier ''_0'', [])] \<and>
      replayed c =
        [t_expressionStatement
             (t_callExpression (t_identifier ''_0'')
                [t_identifier ''o'', t_stringLiteral ''q'',
                 t_objectExpression
                   [(t_identifier ''enumerable'', t_booleanLiteral True),
                    (t_identifier ''configurable'', t_booleanLiteral False),
                    (t_identifier ''get'', t_identifier ''g''),
                    (t_identifier ''set'', t_identifier ''s'')]]),
         t_expressionStatement
             (t_callExpression (t_identifier ''_0'')
                [t_identifier ''o'', t_stringLiteral ''r'',
                 t_objectExpression
                   [(t_identifier ''enumerable'', t_booleanLiteral True),
                    (t_identifier ''configurable'', t_booleanLiteral False),
                    (t_identifier ''get'', t_identifier ''g''),
                    (t_identifier ''set'', t_identifier ''s'')]])] \<and>
      (\<exists>s'. state_of (t_heap (calls c)) (preludeGenerator (recorder c)) = Some s' \<and>
         prelude_of s' =
           [t_variableDeclaration ''var''
             [(t_identifier ''_0'',
               t_memberExpression (t_identifier ''Object'') (t_identifier ''defineProperty''))]]) \<and>
      length (appended_for ''Object.defineProperty'' (t_refs (calls c))) \<le> 1)"
proof -
  let ?d1 = "\<lparr> writable = Some True, enumerable = Some True, configurable = Some True,
       value' = Some (ConcreteV 0 7), get' = None, set' = None \<rparr>"
  let ?d2 = "\<lparr> writable = None, enumerable = Some True, configurable = None,
       value' = None, get' = Some (ConcreteV 0 8), set' = None \<rparr>"
  let ?d3 = "\<lparr> writable = Some False, enumerable = None, configurable = None,
                  value' = Some (ConcreteV 0 7), get' = None, set' = None \<rparr>"
  let ?n = "[t_identifier ''o'', t_identifier ''v'', t_identifier ''g'', t_identifier ''s'']"
  let ?xs = "[(''q'', ?d2, ?n), (''r'', ?d3, ?n)]"
  have l: "\<forall>x \<in> set ?xs. 4 \<le> length (snd (snd x))" by simp
  have pg: "preludeGenerator example_generator = 4" "body example_generator = []"
    by (simp_all add: example_generator_def)
  have u: "undefined' (intrinsics example_realm) = ConcreteV 0 0"
    by (simp add: example_realm_def)
  let ?k = "''Object.defineProperty''"
  let ?ops = "[Replay ''q'' \<lparr> writable = None, enumerable = Some True, configurable = None,
                  value' = None, get' = Some (ConcreteV 0 8), set' = None \<rparr> [t_identifier ''o'', t_identifier ''v'', t_identifier ''g'', t_identifier ''s''],
         Call GenerateUid,
         Replay ''r'' \<lparr> writable = None, enumerable = Some True, configurable = None,
                  value' = None, get' = Some (ConcreteV 0 8), set' = None \<rparr> [t_identifier ''o'', t_identifier ''v'', t_identifier ''g'', t_identifier ''s'']]"
  let ?s0 = "\<lparr> prelude_of = [], derivedIds_of = {}, memoisedRefs_of = Map.empty,
            uidCounter_of = 0 \<rparr>"
  let ?b0 = "t_variableDeclaration ''var''
             [(t_identifier ''_0'',
               t_memberExpression (t_identifier ''Object'') (t_identifier ''defineProperty''))]"
  let ?s1 = "?s0\<lparr>prelude_of := [?b0], memoisedRefs_of := [?k \<mapsto> t_identifier ''_0''],
            uidCounter_of := 1\<rparr>"
  from memoiseReference_miss [OF example_heap_state _ convertStringToMember_defineProperty]
  obtain h1 where h1:
    "memoiseReference example_heap 4 ?k = Inr (t_identifier ''_0'', h1)"
    "state_of h1 4 = Some ?s1"
    by (auto simp: base62_encode_0)
  from generateUid_effect [OF h1(2)] obtain h2 where h2:
    "generateUid h1 4 = Inr (''_1'', h2)"
    "state_of h2 4 = Some (?s1\<lparr>uidCounter_of := 2\<rparr>)"
    using base62_encode_1 by auto
  have h3: "memoiseReference h2 4 ?k = Inr (t_identifier ''_0'', h2)"
    by (rule memoiseReference_hit [OF h2(2)]) simp
  let ?c = "\<lparr> recorder = example_generator,
      calls = \<lparr> t_heap = h2, t_saved = [], t_uids = [''_0'', ''_1''],
        t_refs = [(?k, t_identifier ''_0'', [?b0]), (?k, t_identifier ''_0'', [])] \<rparr>,
      replayed =
        [t_expressionStatement
             (t_callExpression (t_identifier ''_0'')
                [t_identifier ''o'', t_stringLiteral ''q'',
                 t_objectExpression
                   [(t_identifier ''enumerable'', t_booleanLiteral True),
                    (t_identifier ''configurable'', t_booleanLiteral False),
                    (t_identifier ''get'', t_identifier ''g''),
                    (t_identifier ''set'', t_identifier ''s'')]]),
         t_expressionStatement
             (t_callExpression (t_identifier ''_0'')
                [t_identifier ''o'', t_stringLiteral ''r'',
                 t_objectExpression
                   [(t_identifier ''enumerable'', t_booleanLiteral True),
                    (t_identifier ''configurable'', t_booleanLiteral False),
                    (t_identifier ''get'', t_identifier ''g''),
                    (t_identifier ''set'', t_identifier ''s'')]])] \<rparr>"
  have run: "rec_run (session_start example_generator example_heap) ?ops = Inr ?c"
    using h1 h2 h3 example_heap_state
    by (simp add: session_start_def start_def pg definePropertyNode_eq prelude_at_def
          minted_def)
  have nr: "\<forall>x \<in> set ?ops. \<not> restores x" by simp
  note w = emitDefineProperty_policy
             [OF example_Realm_of example_heap_realm example_generator_facts(1) l nr run]
  have 1: "emitDefineProperty example_generator example_heap (AbstractV 6) ''p'' ?d1 =
     Inr (emitPropertyAssignment example_generator example_heap (AbstractV 6) ''p''
            (ConcreteV 0 7))"
    using w [where desc = ?d1 and v = "ConcreteV 0 7" and key = "''p''", THEN conjunct1]
    by simp
  have 2: "emitDefineProperty example_generator example_heap (AbstractV 6) ''q'' ?d2 =
     Inr (example_generator\<lparr>body :=
            [\<lparr> declaresDerivedId = None, entry_args = 7,
                entry_buildNode = definePropertyNode 4 ''q'' ?d2 \<rparr>]\<rparr>,
          example_heap @
            [ArrayObj [AbstractV 6, ConcreteV 0 0, ConcreteV 0 8, ConcreteV 0 0]])"
    using w [where desc = ?d2 and key = "''q''", THEN conjunct2, THEN conjunct1]
    by (simp add: pg u example_heap_length)
  have 3: "\<exists>callee hp'.
      memoiseReference example_heap 4 ''Object.defineProperty'' = Inr (callee, hp') \<and>
      definePropertyNode 4 ''q'' ?d2 ?n example_heap =
        Inr (t_expressionStatement
               (t_callExpression callee
                  [t_identifier ''o'', t_stringLiteral ''q'',
                   t_objectExpression
                     [(t_identifier ''enumerable'', t_booleanLiteral True),
                      (t_identifier ''configurable'', t_booleanLiteral False),
                      (t_identifier ''get'', t_identifier ''g''),
                      (t_identifier ''set'', t_identifier ''s'')]]),
             hp')"
    using w [where desc = ?d2 and key = "''q''" and objectNode = "t_identifier ''o''"
               and valueNode = "t_identifier ''v''" and getNode = "t_identifier ''g''"
               and setNode = "t_identifier ''s''",
             THEN conjunct2, THEN conjunct2, THEN conjunct1]
    by (simp add: pg)
  from w [THEN conjunct2, THEN conjunct2, THEN conjunct2, THEN conjunct1]
  obtain stmts hp' s' bs where r:
      "defineAll (preludeGenerator example_generator) ?xs example_heap = Inr (stmts, hp')"
      "length stmts = length ?xs"
      "state_of hp' (preludeGenerator example_generator) = Some s'"
      "prelude_of s' = prelude_of \<lparr> prelude_of = [], derivedIds_of = {},
          memoisedRefs_of = Map.empty, uidCounter_of = 0 \<rparr> @ bs"
      "length bs \<le> 1"
    by (elim exE conjE)
  have 4: "\<exists>stmts hp' s' bs.
      defineAll 4 ?xs example_heap = Inr (stmts, hp') \<and>
      length stmts = 2 \<and> state_of hp' 4 = Some s' \<and>
      prelude_of s' = bs \<and> length bs \<le> 1"
    using r by (intro exI [of _ stmts] exI [of _ hp'] exI [of _ s'] exI [of _ bs])
      (simp add: pg)
  from w [THEN conjunct2, THEN conjunct2, THEN conjunct2, THEN conjunct2]
  have a: "length (appended_for ?k (t_refs (calls ?c))) \<le> 1"
    by (elim exE conjE)
  have 5: "\<exists>c. rec_run (session_start example_generator example_heap) ?ops = Inr c \<and>
      t_refs (calls c) =
        [(?k, t_identifier ''_0'', [?b0]), (?k, t_identifier ''_0'', [])] \<and>
      replayed c =
        [t_expressionStatement
             (t_callExpression (t_identifier ''_0'')
                [t_identifier ''o'', t_stringLiteral ''q'',
                 t_objectExpression
                   [(t_identifier ''enumerable'', t_booleanLiteral True),
                    (t_identifier ''configurable'', t_booleanLiteral False),
                    (t_identifier ''get'', t_identifier ''g''),
                    (t_identifier ''set'', t_identifier ''s'')]]),
         t_expressionStatement
             (t_callExpression (t_identifier ''_0'')
                [t_identifier ''o'', t_stringLiteral ''r'',
                 t_objectExpression
                   [(t_identifier ''enumerable'', t_booleanLiteral True),
                    (t_identifier ''configurable'', t_booleanLiteral False),
                    (t_identifier ''get'', t_identifier ''g''),
                    (t_identifier ''set'', t_identifier ''s'')]])] \<and>
      (\<exists>s'. state_of (t_heap (calls c)) (preludeGenerator (recorder c)) = Some s' \<and>
         prelude_of s' = [?b0]) \<and>
      length (appended_for ?k (t_refs (calls c))) \<le> 1"
    using run a h2(2) by (intro exI [of _ ?c]) (simp add: pg)
  show ?thesis by (intro conjI 1 2 3 4 5)
qed

subsection \<open>Every emit operation appends one entry\<close>

text \<open>
  C9. Each emit operation returns the recorder with one entry appended at the end of
  \<open>body\<close>, the entries before it as they were and in their order. The heap grows by
  the dependency array of the entry and by nothing else (\<open>emitInvariant\<close> takes its
  array from the caller and leaves the heap alone), so that no object of the heap
  changes, the allocator and its prelude included: the statement of the entry is built
  when the entry is replayed, not when it is recorded. \<open>emitDefineProperty\<close> does so
  for an object whose realm is on the heap. \<open>empty\<close> holds exactly when \<open>body\<close>
  has no entry, as is the case for a new recorder.
\<close>

theorem emit_operations_append_one_entry:
  "(\<exists>e. emitGlobalDeclaration this h key v =
          (this\<lparr>body := body this @ [e]\<rparr>, h @ [ArrayObj [v]])) \<and>
   (\<exists>e. emitGlobalAssignment this h key v =
          (this\<lparr>body := body this @ [e]\<rparr>, h @ [ArrayObj [v]])) \<and>
   (\<exists>e. emitGlobalDelete this h key =
          (this\<lparr>body := body this @ [e]\<rparr>, h @ [ArrayObj []])) \<and>
   (\<exists>e. emitPropertyAssignment this h object key v =
          (this\<lparr>body := body this @ [e]\<rparr>, h @ [ArrayObj [object, v]])) \<and>
   (Realm_of h object = Inr ra \<and> getRealm h ra = Some r \<longrightarrow>
      (\<exists>e deps. emitDefineProperty this h object key desc =
          Inr (this\<lparr>body := body this @ [e]\<rparr>, h @ [ArrayObj deps]))) \<and>
   (\<exists>e. emitPropertyDelete this h object key =
          (this\<lparr>body := body this @ [e]\<rparr>, h @ [ArrayObj [object]])) \<and>
   (\<exists>e. emitConsoleLog this h str =
          (this\<lparr>body := body this @ [e]\<rparr>, h @ [ArrayObj [StringV (realm this) str]])) \<and>
   (\<exists>e. emitInvariant this a f = this\<lparr>body := body this @ [e]\<rparr>) \<and>
   (empty_Generator this \<longleftrightarrow> body this = []) \<and>
   (\<forall>g. new_Generator h ra = Inr g \<longrightarrow> empty_Generator g)"
proof (intro conjI impI allI)
  show "\<exists>e. emitGlobalDeclaration this h key v =
          (this\<lparr>body := body this @ [e]\<rparr>, h @ [ArrayObj [v]])"
    unfolding emitGlobalDeclaration_def alloc_def body_push_def Let_def prod.case
    by (rule exI, rule refl)
  show "\<exists>e. emitGlobalAssignment this h key v =
          (this\<lparr>body := body this @ [e]\<rparr>, h @ [ArrayObj [v]])"
    unfolding emitGlobalAssignment_def alloc_def body_push_def Let_def prod.case
    by (rule exI, rule refl)
  show "\<exists>e. emitGlobalDelete this h key =
          (this\<lparr>body := body this @ [e]\<rparr>, h @ [ArrayObj []])"
    unfolding emitGlobalDelete_def alloc_def body_push_def Let_def prod.case
    by (rule exI, rule refl)
  show "\<exists>e. emitPropertyAssignment this h object key v =
          (this\<lparr>body := body this @ [e]\<rparr>, h @ [ArrayObj [object, v]])"
    unfolding emitPropertyAssignment_def alloc_def body_push_def Let_def prod.case
    by (rule exI, rule refl)
  show "\<exists>e. emitPropertyDelete this h object key =
          (this\<lparr>body := body this @ [e]\<rparr>, h @ [ArrayObj [object]])"
    unfolding emitPropertyDelete_def alloc_def body_push_def Let_def prod.case
    by (rule exI, rule refl)
  show "\<exists>e. emitConsoleLog this h str =
          (this\<lparr>body := body this @ [e]\<rparr>, h @ [ArrayObj [StringV (realm this) str]])"
    unfolding emitConsoleLog_def alloc_def body_push_def Let_def prod.case
    by (rule exI, rule refl)
  show "\<exists>e. emitInvariant this a f = this\<lparr>body := body this @ [e]\<rparr>"
    unfolding emitInvariant_def body_push_def by (rule exI, rule refl)
  show "empty_Generator this \<longleftrightarrow> body this = []"
    by (simp add: empty_Generator_def)
next
  fix g
  assume "new_Generator h ra = Inr g"
  then show "empty_Generator g"
    by (auto simp: new_Generator_def empty_Generator_def split: option.splits if_splits)
next
  assume a: "Realm_of h object = Inr ra \<and> getRealm h ra = Some r"
  show "\<exists>e deps. emitDefineProperty this h object key desc =
          Inr (this\<lparr>body := body this @ [e]\<rparr>, h @ [ArrayObj deps])"
  proof (cases "truthy_bool (enumerable desc) \<and> truthy_bool (configurable desc) \<and>
         truthy_bool (writable desc) \<and> truthy_Value (value' desc)")
    case True
    then obtain x where "value' desc = Some x" by (cases "value' desc") auto
    with True have "emitDefineProperty this h object key desc =
        Inr (emitPropertyAssignment this h object key x)"
      by (simp add: emitDefineProperty_assign)
    then show ?thesis
      unfolding emitPropertyAssignment_def alloc_def body_push_def prod.case
      by (intro exI) (erule trans, rule refl)
  next
    case False
    from a have "Realm_of h object = Inr ra" "getRealm h ra = Some r" by simp_all
    from emitDefineProperty_define [OF this False, of this key] show ?thesis
      by (intro exI)
  qed
qed

theorem emit_operations_append_one_entry_witness:
  "(\<exists>e deps. emitDefineProperty example_generator example_heap (AbstractV 6) ''q''
       \<lparr> writable = None, enumerable = Some True, configurable = None,
         value' = None, get' = Some (ConcreteV 0 8), set' = None \<rparr> =
       Inr (example_generator\<lparr>body := body example_generator @ [e]\<rparr>,
            example_heap @ [ArrayObj deps])) \<and>
   (\<exists>g. new_Generator example_heap 0 = Inr g \<and> empty_Generator g) \<and>
   (\<exists>e. emitConsoleLog example_generator example_heap ''hello'' =
          (example_generator\<lparr>body := [e]\<rparr>,
           example_heap @ [ArrayObj [StringV 0 ''hello'']])) \<and>
   empty_Generator example_generator \<and>
   \<not> empty_Generator (fst (emitConsoleLog example_generator example_heap ''hello''))"
proof -
  note w = emit_operations_append_one_entry
             [where this = example_generator and h = example_heap
                and object = "AbstractV 6" and ra = 0 and r = example_realm
                and key = "''q''" and str = "''hello''"
                and desc = "\<lparr> writable = None, enumerable = Some True,
                  configurable = None, value' = None, get' = Some (ConcreteV 0 8),
                  set' = None \<rparr>"]
  note w5 = w [THEN conjunct2, THEN conjunct2, THEN conjunct2, THEN conjunct2]
  note w7 = w5 [THEN conjunct2, THEN conjunct2]
  note w9 = w7 [THEN conjunct2, THEN conjunct2]
  have g: "new_Generator example_heap 0 = Inr example_generator"
    by (simp add: new_Generator_def example_heap_realm example_realm_def
          example_generator_def)
  have b: "body example_generator = []" "realm example_generator = 0"
    by (simp_all add: example_generator_def)
  have 1: "\<exists>e deps. emitDefineProperty example_generator example_heap (AbstractV 6) ''q''
       \<lparr> writable = None, enumerable = Some True, configurable = None,
         value' = None, get' = Some (ConcreteV 0 8), set' = None \<rparr> =
       Inr (example_generator\<lparr>body := body example_generator @ [e]\<rparr>,
            example_heap @ [ArrayObj deps])"
    by (rule mp [OF w5 [THEN conjunct1]])
       (simp add: example_Realm_of example_heap_realm)
  have 2: "\<exists>g. new_Generator example_heap 0 = Inr g \<and> empty_Generator g"
    using w9 [THEN conjunct2] g by simp
  have 3: "\<exists>e. emitConsoleLog example_generator example_heap ''hello'' =
          (example_generator\<lparr>body := [e]\<rparr>,
           example_heap @ [ArrayObj [StringV 0 ''hello'']])"
    using w7 [THEN conjunct1] by (simp add: b)
  have 4: "empty_Generator example_generator"
    using w9 [THEN conjunct1] by (simp add: b)
  obtain e where "fst (emitConsoleLog example_generator example_heap ''hello'') =
      example_generator\<lparr>body := [e]\<rparr>"
    using 3 by auto
  then have 5:
    "\<not> empty_Generator (fst (emitConsoleLog example_generator example_heap ''hello''))"
    by (simp add: empty_Generator_def)
  show ?thesis by (intro conjI 1 2 3 4 5)
qed

end
